theory Spec2Isabelle
  imports Main "HOL-Library.Word"
begin

section \<open>JavaScript values\<close>

text \<open>
  A JavaScript string is a sequence of UTF-16 code units. Literals of the source are
  written \<open>js ''...''\<close>; they are all ASCII except the warning glyph of the error message.
\<close>

type_synonym jsstring = "16 word list"

definition js :: "string \<Rightarrow> jsstring" where
  "js s = map (\<lambda>c. of_nat (of_char c)) s"

text \<open>
  The untyped values the engine hands to the classifier (\<open>unknown\<close> / \<open>any\<close> in the
  source). \<open>JObj cn fs\<close> is an object whose \<open>constructor.name\<close> reads \<open>cn\<close> and whose
  own properties are \<open>fs\<close>, in insertion order. Numbers are integers here: the code
  only tests them for truthiness and serialises them.
\<close>

datatype jsval =
    JUndefined
  | JNull
  | JBool bool
  | JNum int
  | JStr jsstring
  | JArr "jsval list"
  | JObj string "(string \<times> jsval) list"

text \<open>\<open>if (v)\<close>, \<open>!v\<close>, \<open>v && ...\<close>, \<open>v || ...\<close>: JavaScript truthiness.\<close>

fun truthy :: "jsval \<Rightarrow> bool" where
  "truthy JUndefined = False"
| "truthy JNull = False"
| "truthy (JBool b) = b"
| "truthy (JNum n) = (n \<noteq> 0)"
| "truthy (JStr s) = (s \<noteq> [])"
| "truthy (JArr xs) = True"
| "truthy (JObj cn fs) = True"

text \<open>\<open>a || b\<close>\<close>

definition js_or :: "jsval \<Rightarrow> jsval \<Rightarrow> jsval" where
  "js_or a b = (if truthy a then a else b)"

text \<open>
  \<open>v.k\<close> on a value that is not null or undefined: the property when \<open>v\<close> is an object
  that has it, \<open>undefined\<close> otherwise (the code reads no property of a primitive or of
  an array that those have).
\<close>

fun field :: "string \<Rightarrow> jsval \<Rightarrow> jsval" where
  "field k (JObj cn fs) = (case map_of fs k of Some v \<Rightarrow> v | None \<Rightarrow> JUndefined)"
| "field k v = JUndefined"

text \<open>\<open>"k" in v\<close> for a value \<open>v\<close> with \<open>typeof v === "object"\<close>.\<close>

fun has_key :: "string \<Rightarrow> jsval \<Rightarrow> bool" where
  "has_key k (JObj cn fs) = (k \<in> fst ` set fs)"
| "has_key k v = False"

text \<open>\<open>v?.constructor?.name\<close> of a truthy value.\<close>

fun constructorName :: "jsval \<Rightarrow> string" where
  "constructorName (JObj cn fs) = cn"
| "constructorName (JArr xs) = ''Array''"
| "constructorName (JStr s) = ''String''"
| "constructorName (JNum n) = ''Number''"
| "constructorName (JBool b) = ''Boolean''"
| "constructorName v = ''''"

text \<open>\<open>typeof v === "object"\<close> for a truthy \<open>v\<close>.\<close>

fun is_object :: "jsval \<Rightarrow> bool" where
  "is_object (JObj cn fs) = True"
| "is_object (JArr xs) = True"
| "is_object v = False"

subsection \<open>Decimal rendering and \<open>JSON.stringify\<close>\<close>

definition digit :: "nat \<Rightarrow> 16 word" where
  "digit d = of_nat (48 + d)"

text \<open>\<open>n.toString()\<close> for a non-negative integer such as \<open>Date.now()\<close>.\<close>

fun dec :: "nat \<Rightarrow> jsstring" where
  "dec n = (if n < 10 then [digit n] else dec (n div 10) @ [digit (n mod 10)])"

declare dec.simps [simp del]

definition dec_int :: "int \<Rightarrow> jsstring" where
  "dec_int i = (if i < 0 then js ''-'' @ dec (nat (- i)) else dec (nat i))"

definition hex_digit :: "nat \<Rightarrow> 16 word" where
  "hex_digit d = (if d < 10 then of_nat (48 + d) else of_nat (87 + d))"

definition is_high_surrogate :: "16 word \<Rightarrow> bool" where
  "is_high_surrogate c = (0xD800 \<le> c \<and> c \<le> 0xDBFF)"

definition is_low_surrogate :: "16 word \<Rightarrow> bool" where
  "is_low_surrogate c = (0xDC00 \<le> c \<and> c \<le> 0xDFFF)"

definition unicode_escape :: "16 word \<Rightarrow> jsstring" where
  "unicode_escape c =
     [0x5C, 0x75, hex_digit (unat c div 4096), hex_digit (unat c div 256 mod 16),
      hex_digit (unat c div 16 mod 16), hex_digit (unat c mod 16)]"

text \<open>
  The escape of one code unit that is not part of a surrogate pair (QuoteJSONString):
  \<open>0x5C\<close> is the backslash, \<open>0x22\<close> the double quote.
\<close>

definition quote_unit :: "16 word \<Rightarrow> jsstring" where
  "quote_unit c =
     (if c = 0x22 then [0x5C, 0x22]
      else if c = 0x5C then [0x5C, 0x5C]
      else if c = 0x08 then [0x5C, 0x62]
      else if c = 0x0C then [0x5C, 0x66]
      else if c = 0x0A then [0x5C, 0x6E]
      else if c = 0x0D then [0x5C, 0x72]
      else if c = 0x09 then [0x5C, 0x74]
      else if c < 0x20 \<or> is_high_surrogate c \<or> is_low_surrogate c then unicode_escape c
      else [c])"

fun quote_units :: "jsstring \<Rightarrow> jsstring" where
  "quote_units [] = []"
| "quote_units [c] = quote_unit c"
| "quote_units (c # d # cs) =
     (if is_high_surrogate c \<and> is_low_surrogate d then c # d # quote_units cs
      else quote_unit c @ quote_units (d # cs))"

definition json_quote :: "jsstring \<Rightarrow> jsstring" where
  "json_quote s = [0x22] @ quote_units s @ [0x22]"

fun join_comma :: "jsstring list \<Rightarrow> jsstring" where
  "join_comma [] = []"
| "join_comma [x] = x"
| "join_comma (x # y # ys) = x @ js '','' @ join_comma (y # ys)"

text \<open>
  \<open>JSON.stringify(v)\<close> without indentation, for values that carry no \<open>toJSON\<close> and no
  cycle: \<open>None\<close> is the result \<open>undefined\<close>. An array element that serialises to
  \<open>undefined\<close> is written \<open>null\<close>; an object property that does is left out.
\<close>

primrec JSON_stringify :: "jsval \<Rightarrow> jsstring option"
  and stringify_elems :: "jsval list \<Rightarrow> jsstring list"
  and stringify_props :: "(string \<times> jsval) list \<Rightarrow> jsstring list"
  and stringify_prop :: "string \<times> jsval \<Rightarrow> jsstring list"
where
  "JSON_stringify JUndefined = None"
| "JSON_stringify JNull = Some (js ''null'')"
| "JSON_stringify (JBool b) = Some (if b then js ''true'' else js ''false'')"
| "JSON_stringify (JNum n) = Some (dec_int n)"
| "JSON_stringify (JStr s) = Some (json_quote s)"
| "JSON_stringify (JArr xs) = Some (js ''['' @ join_comma (stringify_elems xs) @ js '']'')"
| "JSON_stringify (JObj cn fs) = Some (js ''{'' @ join_comma (stringify_props fs) @ js ''}'')"
| "stringify_elems [] = []"
| "stringify_elems (x # xs) =
     (case JSON_stringify x of None \<Rightarrow> js ''null'' | Some s \<Rightarrow> s) # stringify_elems xs"
| "stringify_props [] = []"
| "stringify_props (p # ps) = stringify_prop p @ stringify_props ps"
| "stringify_prop (k, v) =
     (case JSON_stringify v of None \<Rightarrow> [] | Some s \<Rightarrow> [json_quote (js k) @ js '':'' @ s])"

text \<open>A template literal \<open>`...${JSON.stringify(v)}...`\<close> prints \<open>undefined\<close> as a word.\<close>

definition stringify_text :: "jsval \<Rightarrow> jsstring" where
  "stringify_text v = (case JSON_stringify v of None \<Rightarrow> js ''undefined'' | Some s \<Rightarrow> s)"

section \<open>ChunkClassifier: \<open>tokenGenerator\<close>\<close>

text \<open>
  The chunks the generator yields are the object literals of the source, with the
  property order of the source.
\<close>

definition token_chunk :: "jsval \<Rightarrow> jsval \<Rightarrow> jsval" where
  "token_chunk content messageId =
     JObj ''Object'' [(''type'', JStr (js ''token'')), (''content'', content),
                      (''messageId'', messageId)]"

definition tool_call_chunk :: "jsval \<Rightarrow> jsval \<Rightarrow> jsval" where
  "tool_call_chunk toolCall messageId =
     JObj ''Object'' [(''type'', JStr (js ''tool_call'')), (''toolCall'', toolCall),
                      (''messageId'', messageId)]"

definition tool_result_chunk :: "jsval \<Rightarrow> jsval \<Rightarrow> jsval \<Rightarrow> jsval" where
  "tool_result_chunk name content messageId =
     JObj ''Object'' [(''type'', JStr (js ''tool_result'')),
                      (''toolResult'', JObj ''Object'' [(''name'', name), (''content'', content)]),
                      (''messageId'', messageId)]"

text \<open>
  One item of an array-valued \<open>content\<close>. \<open>now\<close> is the reading of \<open>Date.now()\<close>
  while the event is classified.
\<close>

definition content_item_chunks :: "nat \<Rightarrow> jsval \<Rightarrow> jsval \<Rightarrow> jsval list" where
  "content_item_chunks now aiMessage item =
     (case item of
        JStr s \<Rightarrow> (if s \<noteq> [] then [token_chunk (JStr s) (field ''id'' aiMessage)] else [])
      | _ \<Rightarrow>
        (if truthy item \<and> is_object item then
           (if has_key ''text'' item \<and> truthy (field ''text'' item)
            then [token_chunk (field ''text'' item) (field ''id'' aiMessage)] else []) @
           (if has_key ''functionCall'' item \<and> truthy (field ''functionCall'' item)
            then [tool_call_chunk
                    (JObj ''Object''
                       [(''name'', field ''name'' (field ''functionCall'' item)),
                        (''args'', field ''args'' (field ''functionCall'' item)),
                        (''id'', js_or (field ''id'' aiMessage) (JStr (dec now))),
                        (''type'', JStr (js ''tool_call''))])
                    (field ''id'' aiMessage)]
            else [])
         else []))"

text \<open>The chunks derived from \<open>aiMessage.content\<close>.\<close>

definition content_chunks :: "nat \<Rightarrow> jsval \<Rightarrow> jsval list" where
  "content_chunks now aiMessage =
     (case field ''content'' aiMessage of
        JStr s \<Rightarrow> (if s \<noteq> [] then [token_chunk (JStr s) (field ''id'' aiMessage)] else [])
      | JArr items \<Rightarrow> concat (map (content_item_chunks now aiMessage) items)
      | _ \<Rightarrow> [])"

text \<open>The chunks derived from a non-empty \<open>aiMessage.tool_calls\<close> array.\<close>

definition tool_calls_chunks :: "jsval \<Rightarrow> jsval list" where
  "tool_calls_chunks aiMessage =
     (case field ''tool_calls'' aiMessage of
        JArr tcs \<Rightarrow> map (\<lambda>toolCall. tool_call_chunk toolCall (field ''id'' aiMessage)) tcs
      | _ \<Rightarrow> [])"

definition tool_message_chunk :: "jsval \<Rightarrow> jsval" where
  "tool_message_chunk toolMessage =
     tool_result_chunk
       (js_or (field ''name'' toolMessage) (JStr (js ''unknown'')))
       (case field ''content'' toolMessage of
          JStr s \<Rightarrow> JStr s
        | c \<Rightarrow> (case JSON_stringify c of None \<Rightarrow> JUndefined | Some s \<Rightarrow> JStr s))
       (field ''id'' toolMessage)"

definition message_chunks :: "nat \<Rightarrow> jsval \<Rightarrow> jsval list" where
  "message_chunks now message =
     (if constructorName message = ''AIMessageChunk''
      then content_chunks now message @ tool_calls_chunks message else []) @
     (if constructorName message = ''ToolMessage'' then [tool_message_chunk message] else [])"

text \<open>The body of the generator's loop: the chunks yielded for one engine event.\<close>

definition classify :: "nat \<Rightarrow> jsval \<Rightarrow> jsval list" where
  "classify now chunk =
     (if \<not> truthy chunk then []
      else case chunk of
        JArr [chunkType, chunkData] \<Rightarrow>
          (case chunkData of
             JArr (message # rest) \<Rightarrow>
               (if chunkType = JStr (js ''messages'')
                then (if \<not> truthy message then [] else message_chunks now message)
                else [])
           | _ \<Rightarrow> [])
      | _ \<Rightarrow> [])"

text \<open>
  The generator over the engine's events, each paired with the clock reading at the
  time it is classified; the chunks keep the order of the events.
\<close>

definition tokenGenerator :: "(nat \<times> jsval) list \<Rightarrow> jsval list" where
  "tokenGenerator events = concat (map (\<lambda>(now, chunk). classify now chunk) events)"

section \<open>The wire unit and the conversation messages\<close>

text \<open>
  \<open>StreamChunk\<close>, \<open>ToolCall\<close> and \<open>MessageResponse\<close> as the TypeScript interfaces
  declare them; an optional property is an \<open>option\<close>. This is the type the client
  gives a decoded frame (\<open>JSON.parse(jsonStr) as StreamChunk\<close>).
\<close>

datatype chunk_kind = T_token | T_tool_call | T_tool_result | T_done | T_error

record ToolCall =
  tc_name :: jsstring
  tc_args :: jsval
  tc_id :: jsstring
  tc_type :: jsstring

record ToolResult =
  tr_name :: jsstring
  tr_content :: jsstring

record StreamChunk =
  chunk_type :: chunk_kind
  content :: "jsstring option"
  toolCall :: "ToolCall option"
  toolResult :: "ToolResult option"
  error :: "jsstring option"
  messageId :: "jsstring option"

datatype message_kind = M_human | M_ai | M_tool | M_error

text \<open>
  The \<open>data\<close> of a message: the properties the accumulator writes. The content of a
  message written by the accumulator is always a string.
\<close>

record MessageData =
  data_id :: jsstring
  data_content :: jsstring
  tool_calls :: "ToolCall list option"
  data_name :: "jsstring option"
  status :: "jsstring option"
  tool_call_id :: "jsstring option"

record MessageResponse =
  msg_type :: message_kind
  data :: MessageData

text \<open>\<open>s || d\<close> for an optional string: the empty string is falsy too.\<close>

definition str_or :: "jsstring option \<Rightarrow> jsstring \<Rightarrow> jsstring" where
  "str_or s d = (case s of None \<Rightarrow> d | Some v \<Rightarrow> if v = [] then d else v)"

text \<open>\<open>xs.findIndex(P)\<close>; \<open>None\<close> is the result \<open>-1\<close>.\<close>

fun findIndex :: "('a \<Rightarrow> bool) \<Rightarrow> 'a list \<Rightarrow> nat option" where
  "findIndex P [] = None"
| "findIndex P (x # xs) = (if P x then Some 0 else map_option Suc (findIndex P xs))"

text \<open>The predicate \<open>(m) => m.type === "ai" && m.data.id === currentMessageId\<close>.\<close>

definition is_current_ai :: "jsstring \<Rightarrow> MessageResponse \<Rightarrow> bool" where
  "is_current_ai cur m = (msg_type m = M_ai \<and> data_id (data m) = cur)"

definition new_ai_message :: "jsstring \<Rightarrow> jsstring \<Rightarrow> MessageResponse" where
  "new_ai_message mid acc =
     \<lparr>msg_type = M_ai,
      data = \<lparr>data_id = mid, data_content = acc, tool_calls = None,
              data_name = None, status = None, tool_call_id = None\<rparr>\<rparr>"

definition new_tool_message :: "nat \<Rightarrow> StreamChunk \<Rightarrow> ToolResult \<Rightarrow> MessageResponse" where
  "new_tool_message now chunk tr =
     \<lparr>msg_type = M_tool,
      data = \<lparr>data_id = str_or (messageId chunk) (js ''tool-'' @ dec now),
              data_content = tr_content tr, tool_calls = None,
              data_name = Some (tr_name tr), status = Some (js ''success''),
              tool_call_id = Some (str_or (messageId chunk) [])\<rparr>\<rparr>"

text \<open>The warning glyph U+26A0 U+FE0F and a space, then the chunk's error text.\<close>

definition new_error_message :: "nat \<Rightarrow> StreamChunk \<Rightarrow> MessageResponse" where
  "new_error_message now chunk =
     \<lparr>msg_type = M_error,
      data = \<lparr>data_id = js ''err-'' @ dec now,
              data_content = [0x26A0, 0xFE0F, 0x20] @ str_or (error chunk) (js ''An error occurred''),
              tool_calls = None, data_name = None, status = None, tool_call_id = None\<rparr>\<rparr>"

text \<open>\<open>{...m, data: {...m.data, content: acc}}\<close>\<close>

definition with_content :: "jsstring \<Rightarrow> MessageResponse \<Rightarrow> MessageResponse" where
  "with_content acc m = m\<lparr>data := (data m)\<lparr>data_content := acc\<rparr>\<rparr>"

text \<open>\<open>{...m, data: {...m.data, tool_calls: tcs}}\<close>\<close>

definition with_tool_calls :: "ToolCall list \<Rightarrow> MessageResponse \<Rightarrow> MessageResponse" where
  "with_tool_calls tcs m = m\<lparr>data := (data m)\<lparr>tool_calls := Some tcs\<rparr>\<rparr>"

text \<open>\<open>m.data.tool_calls || []\<close>\<close>

definition existingToolCalls :: "MessageResponse \<Rightarrow> ToolCall list" where
  "existingToolCalls m = (case tool_calls (data m) of None \<Rightarrow> [] | Some tcs \<Rightarrow> tcs)"

section \<open>MessageAccumulator: \<open>processChunksToMessages\<close>\<close>

record accumulator =
  messages :: "MessageResponse list"
  currentMessageId :: "jsstring option"
  accumulatedContent :: "jsstring"

text \<open>\<open>!currentMessageId\<close>: \<open>null\<close> and the empty string are falsy.\<close>

definition no_current :: "jsstring option \<Rightarrow> bool" where
  "no_current cur = (case cur of None \<Rightarrow> True | Some c \<Rightarrow> c = [])"

text \<open>The string a truthy \<open>currentMessageId\<close> holds.\<close>

definition current :: "jsstring option \<Rightarrow> jsstring" where
  "current cur = (case cur of None \<Rightarrow> [] | Some c \<Rightarrow> c)"

text \<open>
  The body of the loop of \<open>processChunksToMessages\<close> for one chunk; \<open>now\<close> is the
  reading of \<open>Date.now()\<close> while the chunk is processed.
\<close>

definition process_chunk :: "nat \<Rightarrow> StreamChunk \<Rightarrow> accumulator \<Rightarrow> accumulator" where
  "process_chunk now chunk st =
     (case chunk_type chunk of
        T_token \<Rightarrow>
          (let acc = accumulatedContent st @ str_or (content chunk) [];
               mid = str_or (messageId chunk) (js ''ai-'' @ dec now)
           in if no_current (currentMessageId st)
              then st\<lparr>messages := messages st @ [new_ai_message mid acc],
                      currentMessageId := Some mid, accumulatedContent := acc\<rparr>
              else (case findIndex (is_current_ai (current (currentMessageId st))) (messages st) of
                      Some idx \<Rightarrow>
                        st\<lparr>messages := (messages st)[idx := with_content acc (messages st ! idx)],
                           accumulatedContent := acc\<rparr>
                    | None \<Rightarrow> st\<lparr>accumulatedContent := acc\<rparr>))
      | T_tool_call \<Rightarrow>
          (case toolCall chunk of
             Some tc \<Rightarrow>
               (if no_current (currentMessageId st) then st
                else (case findIndex (is_current_ai (current (currentMessageId st))) (messages st) of
                        Some idx \<Rightarrow>
                          st\<lparr>messages := (messages st)
                                [idx := with_tool_calls (existingToolCalls (messages st ! idx) @ [tc])
                                          (messages st ! idx)]\<rparr>
                      | None \<Rightarrow> st))
           | None \<Rightarrow> st)
      | T_tool_result \<Rightarrow>
          (case toolResult chunk of
             Some tr \<Rightarrow>
               st\<lparr>messages := messages st @ [new_tool_message now chunk tr],
                  currentMessageId := None, accumulatedContent := []\<rparr>
           | None \<Rightarrow> st)
      | T_error \<Rightarrow>
          st\<lparr>messages := messages st @ [new_error_message now chunk],
             currentMessageId := None, accumulatedContent := []\<rparr>
      | T_done \<Rightarrow> st\<lparr>currentMessageId := None, accumulatedContent := []\<rparr>)"

text \<open>
  \<open>processChunksToMessages\<close>: the chunks in order, each paired with the clock reading
  at the time it is processed, from the empty list.
\<close>

definition processChunksToMessages :: "(nat \<times> StreamChunk) list \<Rightarrow> MessageResponse list" where
  "processChunksToMessages chunks =
     messages (foldl (\<lambda>st (now, chunk). process_chunk now chunk st)
                 \<lparr>messages = [], currentMessageId = None, accumulatedContent = []\<rparr> chunks)"

section \<open>MessageAccumulator: the hook's \<open>processStreamChunk\<close>\<close>

text \<open>
  The state the hook keeps for one thread: the two refs, the cached message list of the
  thread (\<open>old = []\<close> when the cache has none) and the \<open>isSending\<close> flag.
\<close>

record hook_state = accumulator +
  isSending :: bool

definition processStreamChunk :: "nat \<Rightarrow> StreamChunk \<Rightarrow> hook_state \<Rightarrow> hook_state" where
  "processStreamChunk now chunk st =
     (case chunk_type chunk of
        T_token \<Rightarrow>
          (let acc = accumulatedContent st @ str_or (content chunk) [];
               mid = str_or (messageId chunk) (js ''ai-'' @ dec now)
           in if no_current (currentMessageId st)
              then st\<lparr>messages := messages st @ [new_ai_message mid acc],
                      currentMessageId := Some mid, accumulatedContent := acc\<rparr>
              else (case findIndex (is_current_ai (current (currentMessageId st))) (messages st) of
                      None \<Rightarrow> st\<lparr>accumulatedContent := acc\<rparr>
                    | Some idx \<Rightarrow>
                        st\<lparr>messages := (messages st)[idx := with_content acc (messages st ! idx)],
                           accumulatedContent := acc\<rparr>))
      | T_tool_call \<Rightarrow>
          (case toolCall chunk of
             Some tc \<Rightarrow>
               (if no_current (currentMessageId st) then st
                else (case findIndex (is_current_ai (current (currentMessageId st))) (messages st) of
                        None \<Rightarrow> st
                      | Some idx \<Rightarrow>
                          (if list_ex (\<lambda>e. tc_id e = tc_id tc) (existingToolCalls (messages st ! idx))
                           then st
                           else st\<lparr>messages := (messages st)
                                  [idx := with_tool_calls (existingToolCalls (messages st ! idx) @ [tc])
                                            (messages st ! idx)]\<rparr>)))
           | None \<Rightarrow> st)
      | T_tool_result \<Rightarrow>
          (case toolResult chunk of
             Some tr \<Rightarrow>
               st\<lparr>messages := messages st @ [new_tool_message now chunk tr],
                  currentMessageId := None, accumulatedContent := []\<rparr>
           | None \<Rightarrow> st)
      | T_done \<Rightarrow> st\<lparr>currentMessageId := None, accumulatedContent := [], isSending := False\<rparr>
      | T_error \<Rightarrow>
          st\<lparr>messages := messages st @ [new_error_message now chunk],
             currentMessageId := None, accumulatedContent := [], isSending := False\<rparr>)"

text \<open>The hook fed a sequence of decoded chunks, each with its clock reading.\<close>

definition processStreamChunks :: "(nat \<times> StreamChunk) list \<Rightarrow> hook_state \<Rightarrow> hook_state" where
  "processStreamChunks chunks st = foldl (\<lambda>s (now, chunk). processStreamChunk now chunk s) st chunks"

text \<open>
  The state of the hook when \<open>handleStreamResponse\<close> has reset the refs and before the
  first byte arrives; \<open>old\<close> is the cached list of the thread.
\<close>

definition stream_start :: "MessageResponse list \<Rightarrow> hook_state" where
  "stream_start old =
     \<lparr>messages = old, currentMessageId = None, accumulatedContent = [], isSending = True\<rparr>"

section \<open>TokenStreamEncoder: the stream of the \<open>GET\<close> route\<close>

text \<open>
  The controller of the response stream: the text of every \<open>enqueue\<close>, in order, and
  whether \<open>close\<close> was called. \<open>encoder.encode\<close> turns each text into its UTF-8 bytes on
  the way out. The client is taken not to cancel, so that no \<open>enqueue\<close> fails.
\<close>

record controller =
  queue :: "jsstring list"
  closed :: bool

definition enqueue :: "jsstring \<Rightarrow> controller \<Rightarrow> controller" where
  "enqueue text c = c\<lparr>queue := queue c @ [text]\<rparr>"

text \<open>\<open>send(data)\<close>: the frame \<open>data: <json>\<close> and two newlines (code unit 10).\<close>

definition send :: "jsval \<Rightarrow> controller \<Rightarrow> controller" where
  "send d c = enqueue (js ''data: '' @ stringify_text d @ [0x0A, 0x0A]) c"

text \<open>\<open>(err as Error)?.message || "Stream error"\<close>\<close>

definition failure_message :: "jsval \<Rightarrow> jsval" where
  "failure_message err = js_or (field ''message'' err) (JStr (js ''Stream error''))"

definition done_chunk :: jsval where
  "done_chunk = JObj ''Object'' [(''type'', JStr (js ''done''))]"

definition error_chunk :: "jsval \<Rightarrow> jsval" where
  "error_chunk err =
     JObj ''Object'' [(''type'', JStr (js ''error'')), (''error'', failure_message err)]"

definition error_event :: "jsval \<Rightarrow> jsstring \<Rightarrow> jsval" where
  "error_event err threadId =
     JObj ''Object'' [(''message'', failure_message err), (''threadId'', JStr threadId)]"

text \<open>
  The background task of \<open>start(controller)\<close>. The service's iterable yields \<open>chunks\<close>
  and then either ends (\<open>None\<close>) or raises \<open>err\<close> (\<open>Some err\<close>); a failure of
  \<open>streamResponse\<close> itself is \<open>chunks = []\<close> with \<open>Some err\<close>.
\<close>

definition GET_stream :: "jsstring \<Rightarrow> jsval list \<Rightarrow> jsval option \<Rightarrow> controller" where
  "GET_stream threadId chunks outcome =
     (let c0 = enqueue (js '': connected'' @ [0x0A, 0x0A]) \<lparr>queue = [], closed = False\<rparr>;
          c1 = foldl (\<lambda>c chunk. send chunk c) c0 chunks;
          c2 = (case outcome of
                  None \<Rightarrow>
                    enqueue (js ''data: {}'' @ [0x0A, 0x0A])
                      (enqueue (js ''event: done'' @ [0x0A]) (send done_chunk c1))
                | Some err \<Rightarrow>
                    enqueue (js ''data: '' @ stringify_text (error_event err threadId) @ [0x0A, 0x0A])
                      (enqueue (js ''event: error'' @ [0x0A]) (send (error_chunk err) c1)))
      in c2\<lparr>closed := True\<rparr>)"

section \<open>SSEFrameParser: the read loop of \<open>handleStreamResponse\<close>\<close>

subsection \<open>\<open>TextDecoder\<close> in streaming mode\<close>

text \<open>
  The UTF-8 decoder of the Encoding standard, one byte at a time; its state survives
  between calls of \<open>decode(value, {stream: true})\<close>. A malformed sequence gives U+FFFD.
  The byte order mark is not modelled: the stream opens with a comment frame.
\<close>

record utf8_decoder =
  code_point :: nat
  bytes_seen :: nat
  bytes_needed :: nat
  lower_boundary :: "8 word"
  upper_boundary :: "8 word"

definition utf8_init :: utf8_decoder where
  "utf8_init = \<lparr>code_point = 0, bytes_seen = 0, bytes_needed = 0,
                lower_boundary = 0x80, upper_boundary = 0xBF\<rparr>"

text \<open>A byte that arrives when no sequence is open.\<close>

definition utf8_lead :: "8 word \<Rightarrow> utf8_decoder \<times> nat list" where
  "utf8_lead b =
     (if b \<le> 0x7F then (utf8_init, [unat b])
      else if 0xC2 \<le> b \<and> b \<le> 0xDF
        then (utf8_init\<lparr>bytes_needed := 1, code_point := unat b mod 32\<rparr>, [])
      else if 0xE0 \<le> b \<and> b \<le> 0xEF
        then (utf8_init\<lparr>bytes_needed := 2, code_point := unat b mod 16,
                lower_boundary := (if b = 0xE0 then 0xA0 else 0x80),
                upper_boundary := (if b = 0xED then 0x9F else 0xBF)\<rparr>, [])
      else if 0xF0 \<le> b \<and> b \<le> 0xF4
        then (utf8_init\<lparr>bytes_needed := 3, code_point := unat b mod 8,
                lower_boundary := (if b = 0xF0 then 0x90 else 0x80),
                upper_boundary := (if b = 0xF4 then 0x8F else 0xBF)\<rparr>, [])
      else (utf8_init, [0xFFFD]))"

text \<open>The handler: the new state and the code points emitted for one byte.\<close>

definition utf8_handler :: "utf8_decoder \<Rightarrow> 8 word \<Rightarrow> utf8_decoder \<times> nat list" where
  "utf8_handler d b =
     (if bytes_needed d = 0 then utf8_lead b
      else if \<not> (lower_boundary d \<le> b \<and> b \<le> upper_boundary d)
        then (let (d', out) = utf8_lead b in (d', 0xFFFD # out))
      else (let cp = code_point d * 64 + unat b mod 64
            in if bytes_seen d + 1 \<noteq> bytes_needed d
               then (d\<lparr>code_point := cp, bytes_seen := bytes_seen d + 1,
                       lower_boundary := 0x80, upper_boundary := 0xBF\<rparr>, [])
               else (utf8_init, [cp])))"

text \<open>A code point as UTF-16 code units.\<close>

definition utf16 :: "nat \<Rightarrow> jsstring" where
  "utf16 cp =
     (if cp < 0x10000 then [of_nat cp]
      else [of_nat (0xD800 + (cp - 0x10000) div 1024), of_nat (0xDC00 + (cp - 0x10000) mod 1024)])"

text \<open>\<open>decoder.decode(value, {stream: true})\<close>: the new decoder state and the text.\<close>

fun decode_stream :: "utf8_decoder \<Rightarrow> 8 word list \<Rightarrow> utf8_decoder \<times> jsstring" where
  "decode_stream d [] = (d, [])"
| "decode_stream d (b # bs) =
     (let (d1, cps) = utf8_handler d b;
          (d2, text) = decode_stream d1 bs
      in (d2, concat (map utf16 cps) @ text))"

subsection \<open>Lines\<close>

text \<open>\<open>s.split("\n")\<close>: never empty.\<close>

fun split_nl :: "jsstring \<Rightarrow> jsstring list" where
  "split_nl [] = [[]]"
| "split_nl (c # cs) =
     (if c = 0x0A then [] # split_nl cs
      else (case split_nl cs of l # ls \<Rightarrow> (c # l) # ls | [] \<Rightarrow> [[c]]))"

text \<open>\<open>line.startsWith(p)\<close>\<close>

definition startsWith :: "jsstring \<Rightarrow> jsstring \<Rightarrow> bool" where
  "startsWith line p = (take (length p) line = p)"

text \<open>
  The three statements that open the loop body: decode and append to the buffer, split,
  keep the last segment (\<open>lines.pop() || ""\<close>). The result is the pair of decoder state
  and buffer for the next read, and the complete lines, in order.
\<close>

definition read_lines ::
  "utf8_decoder \<times> jsstring \<Rightarrow> 8 word list \<Rightarrow> (utf8_decoder \<times> jsstring) \<times> jsstring list" where
  "read_lines db v =
     (let (d', text) = decode_stream (fst db) v;
          lines = split_nl (snd db @ text)
      in ((d', last lines), butlast lines))"

text \<open>The complete lines of a sequence of reads, in the order the loop handles them.\<close>

fun feed ::
  "utf8_decoder \<times> jsstring \<Rightarrow> 8 word list list \<Rightarrow> (utf8_decoder \<times> jsstring) \<times> jsstring list" where
  "feed db [] = (db, [])"
| "feed db (v # vs) =
     (let (db1, lines1) = read_lines db v;
          (db2, lines2) = feed db1 vs
      in (db2, lines1 @ lines2))"

text \<open>
  The text a \<open>data:\<close> line hands to \<open>JSON.parse\<close>, if any: \<open>line.slice(6)\<close> unless it is
  empty or \<open>{}\<close>.
\<close>

definition data_payload :: "jsstring \<Rightarrow> jsstring option" where
  "data_payload line =
     (if line = [] \<or> startsWith line (js '':'') then None
      else if startsWith line (js ''data: '')
        then (let jsonStr = drop 6 line
              in if jsonStr = [] \<or> jsonStr = js ''{}'' then None else Some jsonStr)
      else None)"

text \<open>The two \<open>event:\<close> checks that close the loop body.\<close>

definition sse_events :: "jsstring \<Rightarrow> hook_state \<Rightarrow> hook_state" where
  "sse_events line st =
     (let st1 = (if startsWith line (js ''event: done'')
                 then st\<lparr>currentMessageId := None, accumulatedContent := [], isSending := False\<rparr>
                 else st)
      in if startsWith line (js ''event: error'')
         then st1\<lparr>currentMessageId := None, accumulatedContent := [], isSending := False\<rparr>
         else st1)"

text \<open>
  The body of \<open>for (const line of lines)\<close>. \<open>parse\<close> is \<open>JSON.parse(jsonStr) as
  StreamChunk\<close>: \<open>None\<close> when \<open>JSON.parse\<close> throws (the \<open>catch\<close> swallows it), the
  decoded chunk otherwise. \<open>now\<close> is the clock reading while the line is handled.
\<close>

definition handle_line ::
  "(jsstring \<Rightarrow> StreamChunk option) \<Rightarrow> nat \<Rightarrow> hook_state \<Rightarrow> jsstring \<Rightarrow> hook_state" where
  "handle_line parse now st line =
     (if line = [] \<or> startsWith line (js '':'') then st
      else if startsWith line (js ''data: '')
        then (let jsonStr = drop 6 line
              in if jsonStr = [] \<or> jsonStr = js ''{}'' then st
                 else sse_events line
                        (case parse jsonStr of
                           None \<Rightarrow> st
                         | Some chunk \<Rightarrow> processStreamChunk now chunk st))
      else sse_events line st)"

text \<open>The state of the read loop, and one iteration of it for a buffer \<open>v\<close>.\<close>

record reader =
  decoder :: utf8_decoder
  buffer :: jsstring
  hook :: hook_state

definition read_step ::
  "(jsstring \<Rightarrow> StreamChunk option) \<Rightarrow> nat \<Rightarrow> reader \<Rightarrow> 8 word list \<Rightarrow> reader" where
  "read_step parse now r v =
     (let (db, lines) = read_lines (decoder r, buffer r) v
      in \<lparr>decoder = fst db, buffer = snd db,
          hook = foldl (handle_line parse now) (hook r) lines\<rparr>)"

section \<open>Vocabulary of the properties and sample inputs\<close>

text \<open>A chunk of the classifier is a token chunk when its \<open>type\<close> reads \<open>token\<close>.\<close>

definition is_token :: "jsval \<Rightarrow> bool" where
  "is_token c = (field ''type'' c = JStr (js ''token''))"

text \<open>An engine event in messages mode: \<open>["messages", [message, metadata]]\<close>.\<close>

definition messages_event :: "jsval \<Rightarrow> jsval" where
  "messages_event message = JArr [JStr (js ''messages''), JArr [message, JObj ''Object'' []]]"

definition sample_tool_call :: jsval where
  "sample_tool_call =
     JObj ''Object'' [(''name'', JStr (js ''read_file'')), (''args'', JObj ''Object'' []),
                      (''id'', JStr (js ''call-1'')), (''type'', JStr (js ''tool_call''))]"

text \<open>An assistant delta with empty text and one tool call, as the repository's tests build it.\<close>

definition sample_tool_call_delta :: jsval where
  "sample_tool_call_delta =
     JObj ''AIMessageChunk'' [(''content'', JStr []), (''id'', JStr (js ''m1'')),
                              (''tool_calls'', JArr [sample_tool_call])]"

definition sample_text_delta :: jsval where
  "sample_text_delta =
     JObj ''AIMessageChunk'' [(''content'', JStr (js ''Hi'')), (''id'', JStr (js ''m1'')),
                              (''tool_calls'', JArr [])]"

text \<open>A tool message whose name is present and empty.\<close>

definition sample_unnamed_tool_message :: jsval where
  "sample_unnamed_tool_message =
     JObj ''ToolMessage'' [(''name'', JStr []), (''content'', JStr (js ''result'')),
                           (''id'', JStr (js ''t1''))]"

text \<open>A tool message whose content is the array \<open>[1, null]\<close>.\<close>

definition sample_tool_message :: jsval where
  "sample_tool_message =
     JObj ''ToolMessage'' [(''name'', JStr (js ''search'')), (''content'', JArr [JNum 1, JNull]),
                           (''id'', JStr (js ''t2''))]"

text \<open>The kinds of the messages of a list, in order.\<close>

definition kinds :: "MessageResponse list \<Rightarrow> message_kind list" where
  "kinds ms = map msg_type ms"

text \<open>The number of assistant messages of a list.\<close>

definition ai_count :: "MessageResponse list \<Rightarrow> nat" where
  "ai_count ms = length (filter (\<lambda>m. msg_type m = M_ai) ms)"

text \<open>The accumulator part of the hook's state.\<close>

definition acc_of :: "hook_state \<Rightarrow> accumulator" where
  "acc_of st = \<lparr>messages = messages st, currentMessageId = currentMessageId st,
               accumulatedContent = accumulatedContent st\<rparr>"

text \<open>The loop of \<open>processChunksToMessages\<close> from any state.\<close>

definition run :: "(nat \<times> StreamChunk) list \<Rightarrow> accumulator \<Rightarrow> accumulator" where
  "run cs st = foldl (\<lambda>st (now, chunk). process_chunk now chunk st) st cs"

text \<open>Every chunk of the sequence is a token chunk.\<close>

definition all_tokens :: "(nat \<times> StreamChunk) list \<Rightarrow> bool" where
  "all_tokens ts = list_all (\<lambda>(now, c). chunk_type c = T_token) ts"

text \<open>Every chunk of the sequence is a token chunk with \<open>messageId\<close> \<open>m\<close>.\<close>

definition tokens_with_id :: "jsstring \<Rightarrow> (nat \<times> StreamChunk) list \<Rightarrow> bool" where
  "tokens_with_id m ts = list_all (\<lambda>(now, c). chunk_type c = T_token \<and> messageId c = Some m) ts"

text \<open>No chunk of the sequence is a tool-call chunk.\<close>

definition no_tool_call :: "(nat \<times> StreamChunk) list \<Rightarrow> bool" where
  "no_tool_call cs = list_all (\<lambda>(now, c). chunk_type c \<noteq> T_tool_call) cs"

text \<open>The text of a sequence of token chunks: \<open>content || ""\<close> of each, concatenated in order.\<close>

definition token_text :: "(nat \<times> StreamChunk) list \<Rightarrow> jsstring" where
  "token_text ts = concat (map (\<lambda>(now, c). str_or (content c) []) ts)"

text \<open>The sequence \<open>cs\<close> consists of tool-call chunks that carry the tool calls \<open>tcs\<close>, in order.\<close>

definition delivers :: "(nat \<times> StreamChunk) list \<Rightarrow> ToolCall list \<Rightarrow> bool" where
  "delivers cs tcs =
     (map (\<lambda>(now, c). (chunk_type c, toolCall c)) cs = map (\<lambda>tc. (T_tool_call, Some tc)) tcs)"

text \<open>Each element of a list once, in the order of first occurrence.\<close>

definition first_occurrences :: "'a list \<Rightarrow> 'a list" where
  "first_occurrences xs = rev (remdups (rev xs))"

text \<open>What one tool-call chunk does to the \<open>tool_calls\<close> of the message in progress.\<close>

definition add_tool_call :: "ToolCall list \<Rightarrow> ToolCall \<Rightarrow> ToolCall list" where
  "add_tool_call es tc = (if list_ex (\<lambda>e. tc_id e = tc_id tc) es then es else es @ [tc])"

text \<open>A token chunk with content \<open>c\<close> and \<open>messageId\<close> \<open>m\<close>.\<close>

definition token :: "string \<Rightarrow> string \<Rightarrow> StreamChunk" where
  "token c m = \<lparr>chunk_type = T_token, content = Some (js c), toolCall = None, toolResult = None,
                error = None, messageId = Some (js m)\<rparr>"

definition sample_result :: ToolResult where
  "sample_result = \<lparr>tr_name = js ''search'', tr_content = js ''result''\<rparr>"

text \<open>A tool-result chunk.\<close>

definition sample_tool_result :: StreamChunk where
  "sample_tool_result = \<lparr>chunk_type = T_tool_result, content = None, toolCall = None,
     toolResult = Some sample_result, error = None, messageId = Some (js ''tool-1'')\<rparr>"

definition sample_call :: ToolCall where
  "sample_call = \<lparr>tc_name = js ''search'', tc_args = JObj ''Object'' [], tc_id = js ''c1'',
                   tc_type = js ''tool_call''\<rparr>"

definition second_call :: ToolCall where
  "second_call = \<lparr>tc_name = js ''fetch'', tc_args = JObj ''Object'' [], tc_id = js ''c2'',
                   tc_type = js ''tool_call''\<rparr>"

text \<open>A tool-call chunk.\<close>

definition sample_tool_call_chunk :: StreamChunk where
  "sample_tool_call_chunk = \<lparr>chunk_type = T_tool_call, content = None, toolCall = Some sample_call,
     toolResult = None, error = None, messageId = Some (js ''m1'')\<rparr>"

text \<open>The tool-call chunk that delivers \<open>tc\<close>.\<close>

definition tool_call_of :: "ToolCall \<Rightarrow> StreamChunk" where
  "tool_call_of tc = \<lparr>chunk_type = T_tool_call, content = None, toolCall = Some tc,
     toolResult = None, error = None, messageId = Some (js ''m1'')\<rparr>"

text \<open>The hook after the first token of a stream: an assistant message is in progress.\<close>

definition open_window :: hook_state where
  "open_window = processStreamChunk 1 (token ''a'' ''m1'') (stream_start [])"

text \<open>A failure whose message is the empty string, such as \<open>new Error("")\<close>.\<close>

definition empty_message_error :: jsval where
  "empty_message_error = JObj ''Error'' [(''message'', JStr [])]"

text \<open>
  The JSON text of a token frame whose content is U+00E9 and a newline; the newline is
  the escape sequence backslash, n (\<open>0x5C\<close>, \<open>0x6E\<close>).
\<close>

definition sample_json :: jsstring where
  \<open>sample_json = js ''{"type":"token","content":"'' @ [0xE9, 0x5C, 0x6E] @ js ''"}''\<close>

text \<open>
  The bytes of the frame \<open>data: <sample_json>\<close> and two newlines, cut inside the two
  bytes \<open>0xC3 0xA9\<close> of U+00E9, inside the escape sequence, and between the newlines.
\<close>

definition sample_pieces :: "8 word list list" where
  "sample_pieces =
     [[0x64, 0x61, 0x74, 0x61, 0x3A, 0x20, 0x7B, 0x22, 0x74, 0x79, 0x70, 0x65, 0x22, 0x3A, 0x22,
       0x74, 0x6F, 0x6B, 0x65, 0x6E, 0x22, 0x2C, 0x22, 0x63, 0x6F, 0x6E, 0x74, 0x65, 0x6E, 0x74,
       0x22, 0x3A, 0x22, 0xC3],
      [0xA9, 0x5C],
      [0x6E, 0x22, 0x7D, 0x0A],
      [0x0A]]"

text \<open>The chunk \<open>JSON.parse\<close> decodes from \<open>sample_json\<close>.\<close>

definition sample_token :: StreamChunk where
  "sample_token = \<lparr>chunk_type = T_token, content = Some [0xE9, 0x0A], toolCall = None,
     toolResult = None, error = None, messageId = None\<rparr>"

text \<open>A stand-in for \<open>JSON.parse\<close> that knows \<open>sample_json\<close> and rejects every other text.\<close>

definition sample_parse :: "jsstring \<Rightarrow> StreamChunk option" where
  "sample_parse s = (if s = sample_json then Some sample_token else None)"

section \<open>ChunkClassifier\<close>

lemma constructorName_AIMessageChunk:
  "constructorName m = ''AIMessageChunk'' \<Longrightarrow> \<exists>fs. m = JObj ''AIMessageChunk'' fs"
  by (cases m) auto

lemma constructorName_ToolMessage:
  "constructorName m = ''ToolMessage'' \<Longrightarrow> \<exists>fs. m = JObj ''ToolMessage'' fs"
  by (cases m) auto

lemma tool_calls_chunks_not_token: "filter is_token (tool_calls_chunks m) = []"
  by (auto simp: tool_calls_chunks_def is_token_def tool_call_chunk_def js_def split: jsval.splits)

text \<open>
  C2, as the code has it. The classifier yields chunks only for an event that is a
  2-element array whose first element is the string \<open>messages\<close> and whose second
  element is an array of at least one element with a truthy first element, of kind
  \<open>AIMessageChunk\<close> or \<open>ToolMessage\<close>. Every other event yields no chunk, and the
  classifier is a total function: it raises nothing.
\<close>

theorem classifier_input_gating:
  "classify now ev \<noteq> [] \<Longrightarrow>
   \<exists>message rest. ev = JArr [JStr (js ''messages''), JArr (message # rest)] \<and> truthy message
      \<and> (constructorName message = ''AIMessageChunk'' \<or> constructorName message = ''ToolMessage'')"
  by (auto simp: classify_def message_chunks_def split: jsval.splits list.splits if_splits)

theorem classifier_input_gating_witness:
  "classify 0 (messages_event sample_tool_message) \<noteq> [] \<and>
   (\<exists>message rest.
      messages_event sample_tool_message = JArr [JStr (js ''messages''), JArr (message # rest)]
      \<and> truthy message
      \<and> (constructorName message = ''AIMessageChunk'' \<or> constructorName message = ''ToolMessage''))"
proof -
  have ne: "classify 0 (messages_event sample_tool_message) \<noteq> []"
    by (simp add: classify_def message_chunks_def messages_event_def sample_tool_message_def)
  from classifier_input_gating [OF ne] ne show ?thesis by blast
qed

text \<open>
  C2 as stated fails: a payload of one element is not a sequence of at least two
  elements, and the classifier yields a token chunk for it.
\<close>

theorem single_element_payload_counterexample:
  "length [sample_text_delta] < 2 \<and>
   classify 0 (JArr [JStr (js ''messages''), JArr [sample_text_delta]])
     = [token_chunk (JStr (js ''Hi'')) (JStr (js ''m1''))]"
  by (simp add: classify_def message_chunks_def content_chunks_def tool_calls_chunks_def
        sample_text_delta_def js_def)

text \<open>
  C8, as the code has it. For an assistant delta whose content is the string \<open>s\<close>, the
  classifier yields, when \<open>s\<close> is not empty, one token chunk with \<open>s\<close> verbatim and
  the message's id, and then one tool-call chunk for each entry of the message's
  \<open>tool_calls\<close> array; when \<open>s\<close> is empty it yields no token chunk, only those
  tool-call chunks. So exactly one of the chunks is a token chunk in the first case and
  none is in the second.
\<close>

theorem ai_string_content_classification:
  assumes "constructorName message = ''AIMessageChunk''"
      and "field ''content'' message = JStr s"
  shows "classify now (JArr [JStr (js ''messages''), JArr (message # rest)])
           = (if s = [] then [] else [token_chunk (JStr s) (field ''id'' message)])
             @ tool_calls_chunks message
         \<and> filter is_token (classify now (JArr [JStr (js ''messages''), JArr (message # rest)]))
           = (if s = [] then [] else [token_chunk (JStr s) (field ''id'' message)])"
proof -
  from assms(1) obtain fs where m: "message = JObj ''AIMessageChunk'' fs"
    using constructorName_AIMessageChunk by blast
  have out: "classify now (JArr [JStr (js ''messages''), JArr (message # rest)])
           = (if s = [] then [] else [token_chunk (JStr s) (field ''id'' message)])
             @ tool_calls_chunks message"
    using assms(2) by (simp add: m classify_def message_chunks_def content_chunks_def)
  have tok: "is_token (token_chunk (JStr s) (field ''id'' message))"
    by (simp add: is_token_def token_chunk_def)
  show ?thesis
    by (simp add: out tool_calls_chunks_not_token tok)
qed

theorem ai_string_content_classification_witness:
  "constructorName sample_text_delta = ''AIMessageChunk'' \<and>
   field ''content'' sample_text_delta = JStr (js ''Hi'') \<and>
   classify 0 (messages_event sample_text_delta) = [token_chunk (JStr (js ''Hi'')) (JStr (js ''m1''))] \<and>
   filter is_token (classify 0 (messages_event sample_text_delta))
     = [token_chunk (JStr (js ''Hi'')) (JStr (js ''m1''))]"
proof -
  have k: "constructorName sample_text_delta = ''AIMessageChunk''"
    by (simp add: sample_text_delta_def)
  have c: "field ''content'' sample_text_delta = JStr (js ''Hi'')"
    by (simp add: sample_text_delta_def)
  have i: "field ''id'' sample_text_delta = JStr (js ''m1'')"
    by (simp add: sample_text_delta_def)
  have t: "tool_calls_chunks sample_text_delta = []"
    by (simp add: tool_calls_chunks_def sample_text_delta_def)
  have n: "js ''Hi'' \<noteq> []"
    by (simp add: js_def)
  from ai_string_content_classification [OF k c, of 0 "[JObj ''Object'' []]"] k c
  show ?thesis by (simp add: messages_event_def i t n is_token_def token_chunk_def)
qed

text \<open>
  C8 as stated fails in its second half: an assistant delta with empty content and one
  entry in \<open>tool_calls\<close> yields a chunk, the tool-call chunk.
\<close>

theorem empty_content_with_tool_calls_counterexample:
  "field ''content'' sample_tool_call_delta = JStr [] \<and>
   classify 0 (messages_event sample_tool_call_delta)
     = [tool_call_chunk sample_tool_call (JStr (js ''m1''))]"
  by (simp add: classify_def message_chunks_def content_chunks_def tool_calls_chunks_def
        messages_event_def sample_tool_call_delta_def)

text \<open>
  C9, as the code has it. For a tool message the classifier yields exactly one
  tool-result chunk. Its name is the message's name when that is truthy, and the
  string \<open>unknown\<close> when the name is absent, null or the empty string. Its content is
  the message's content when that is a string and \<open>JSON.stringify\<close> of it otherwise.
  Its \<open>messageId\<close> is the message's id.
\<close>

theorem tool_message_classification:
  assumes "constructorName message = ''ToolMessage''"
  shows "classify now (JArr [JStr (js ''messages''), JArr (message # rest)])
           = [tool_result_chunk
                (if truthy (field ''name'' message) then field ''name'' message
                 else JStr (js ''unknown''))
                (case field ''content'' message of
                   JStr s \<Rightarrow> JStr s
                 | c \<Rightarrow> (case JSON_stringify c of None \<Rightarrow> JUndefined | Some t \<Rightarrow> JStr t))
                (field ''id'' message)]"
proof -
  from assms obtain fs where m: "message = JObj ''ToolMessage'' fs"
    using constructorName_ToolMessage by blast
  show ?thesis
    by (simp add: m classify_def message_chunks_def tool_message_chunk_def js_or_def)
qed

theorem tool_message_classification_witness:
  "constructorName sample_tool_message = ''ToolMessage'' \<and>
   classify 0 (messages_event sample_tool_message)
     = [tool_result_chunk (JStr (js ''search'')) (JStr (js ''[1,null]'')) (JStr (js ''t2''))]"
proof -
  have k: "constructorName sample_tool_message = ''ToolMessage''"
    by (simp add: sample_tool_message_def)
  have n: "field ''name'' sample_tool_message = JStr (js ''search'')"
    by (simp add: sample_tool_message_def)
  have c: "field ''content'' sample_tool_message = JArr [JNum 1, JNull]"
    by (simp add: sample_tool_message_def)
  have i: "field ''id'' sample_tool_message = JStr (js ''t2'')"
    by (simp add: sample_tool_message_def)
  have d: "dec_int 1 = js ''1''"
    by code_simp
  from tool_message_classification [OF k, of 0 "[JObj ''Object'' []]"] k
  show ?thesis by (simp add: messages_event_def n c i d js_def)
qed

text \<open>
  C9 as stated fails for the name: a tool message whose name is present and is the
  empty string gets the name \<open>unknown\<close>, not its own.
\<close>

theorem empty_tool_name_counterexample:
  "has_key ''name'' sample_unnamed_tool_message \<and>
   field ''name'' sample_unnamed_tool_message = JStr [] \<and>
   classify 0 (messages_event sample_unnamed_tool_message)
     = [tool_result_chunk (JStr (js ''unknown'')) (JStr (js ''result'')) (JStr (js ''t1''))] \<and>
   JStr (js ''unknown'') \<noteq> JStr []"
  by (simp add: classify_def message_chunks_def tool_message_chunk_def js_or_def
        messages_event_def sample_unnamed_tool_message_def) (simp add: js_def)

section \<open>MessageAccumulator\<close>

subsection \<open>Lists and identifiers\<close>

lemma findIndex_Some:
  "findIndex P xs = Some i \<Longrightarrow> i < length xs \<and> P (xs ! i) \<and> (\<forall>j<i. \<not> P (xs ! j))"
proof (induction xs arbitrary: i)
  case Nil
  then show ?case by simp
next
  case (Cons x xs)
  show ?case
  proof (cases "P x")
    case True
    with Cons.prems show ?thesis by simp
  next
    case False
    with Cons.prems obtain k where k: "findIndex P xs = Some k" "i = Suc k"
      by auto
    from Cons.IH [OF k(1)] False k(2) show ?thesis
      by (auto simp: nth_Cons split: nat.splits)
  qed
qed

lemma findIndex_cong:
  "length xs = length ys \<Longrightarrow> (\<And>j. j < length xs \<Longrightarrow> P (xs ! j) = P (ys ! j)) \<Longrightarrow>
   findIndex P xs = findIndex P ys"
proof (induction xs arbitrary: ys)
  case Nil
  then show ?case by simp
next
  case (Cons x xs)
  then obtain y ys' where ys: "ys = y # ys'" by (cases ys) auto
  have h: "P x = P y" using Cons.prems(2) [of 0] ys by simp
  have t: "findIndex P xs = findIndex P ys'"
  proof (rule Cons.IH)
    show "length xs = length ys'" using Cons.prems(1) ys by simp
    fix j assume "j < length xs"
    then show "P (xs ! j) = P (ys' ! j)" using Cons.prems(2) [of "Suc j"] ys by simp
  qed
  show ?case by (simp add: ys h t)
qed

lemma findIndex_append_new:
  "findIndex P old = None \<Longrightarrow> P x \<Longrightarrow> findIndex P (old @ [x]) = Some (length old)"
  by (induction old) (auto split: if_splits)

lemma str_or_nonempty: "d \<noteq> [] \<Longrightarrow> str_or s d \<noteq> []"
  by (simp add: str_or_def split: option.splits)

lemma ai_id_nonempty: "str_or s (js ''ai-'' @ dec now) \<noteq> []"
  by (rule str_or_nonempty) (simp add: js_def)

lemma kinds_update_content:
  "i < length ms \<Longrightarrow> kinds (ms[i := with_content acc (ms ! i)]) = kinds ms"
  by (simp add: kinds_def with_content_def map_update list_update_same_conv)

lemma kinds_update_tool_calls:
  "i < length ms \<Longrightarrow> kinds (ms[i := with_tool_calls tcs (ms ! i)]) = kinds ms"
  by (simp add: kinds_def with_tool_calls_def map_update list_update_same_conv)

lemma ai_count_kinds: "ai_count ms = length (filter (\<lambda>k. k = M_ai) (kinds ms))"
  by (simp add: ai_count_def kinds_def filter_map comp_def)

lemma with_content_new_ai: "with_content acc' (new_ai_message mid acc) = new_ai_message mid acc'"
  by (simp add: with_content_def new_ai_message_def)

lemma is_current_ai_new: "is_current_ai mid (new_ai_message mid acc)"
  by (simp add: is_current_ai_def new_ai_message_def)

lemma run_Nil [simp]: "run [] st = st" by (simp add: run_def)

lemma run_Cons [simp]: "run ((n, c) # cs) st = run cs (process_chunk n c st)" by (simp add: run_def)

lemma run_append: "run (cs @ ds) st = run ds (run cs st)" by (simp add: run_def)

lemma processChunksToMessages_run:
  "processChunksToMessages cs = messages (run cs \<lparr>messages = [], currentMessageId = None, accumulatedContent = []\<rparr>)"
  by (simp add: processChunksToMessages_def run_def)

lemma tokens_with_id_all_tokens: "tokens_with_id m ts \<Longrightarrow> all_tokens ts"
  by (induction ts) (auto simp: tokens_with_id_def all_tokens_def)

lemma all_tokens_no_tool_call: "all_tokens ts \<Longrightarrow> no_tool_call ts"
  by (induction ts) (auto simp: no_tool_call_def all_tokens_def)

lemma no_tool_call_append: "no_tool_call (xs @ ys) = (no_tool_call xs \<and> no_tool_call ys)"
  by (simp add: no_tool_call_def)

subsection \<open>The hook and the pure function agree where no tool call is delivered\<close>

lemma hook_simulates:
  "chunk_type c \<noteq> T_tool_call \<Longrightarrow> acc_of (processStreamChunk now c st) = process_chunk now c (acc_of st)"
  by (cases "chunk_type c")
     (auto simp: processStreamChunk_def process_chunk_def acc_of_def Let_def split: option.splits)

lemma hook_simulates_run:
  "no_tool_call cs \<Longrightarrow> acc_of (processStreamChunks cs st) = run cs (acc_of st)"
proof (induction cs arbitrary: st)
  case Nil
  then show ?case by (simp add: processStreamChunks_def)
next
  case (Cons a cs)
  obtain n c where a: "a = (n, c)" by (cases a)
  have c: "chunk_type c \<noteq> T_tool_call" using Cons.prems a by (simp add: no_tool_call_def)
  have rest: "no_tool_call cs" using Cons.prems by (simp add: no_tool_call_def)
  have "acc_of (processStreamChunks cs (processStreamChunk n c st)) = run cs (acc_of (processStreamChunk n c st))"
    by (rule Cons.IH [OF rest])
  then show ?case
    by (simp add: a processStreamChunks_def hook_simulates [OF c])
qed

subsection \<open>Accumulation windows\<close>

lemma token_first:
  assumes "chunk_type c = T_token" "no_current (currentMessageId st)"
  shows "kinds (messages (process_chunk now c st)) = kinds (messages st) @ [M_ai]"
    and "\<not> no_current (currentMessageId (process_chunk now c st))"
  using assms ai_id_nonempty [of "messageId c" now]
  by (auto simp: process_chunk_def Let_def kinds_def new_ai_message_def no_current_def)

lemma token_next:
  assumes "chunk_type c = T_token" "\<not> no_current (currentMessageId st)"
  shows "kinds (messages (process_chunk now c st)) = kinds (messages st)"
    and "\<not> no_current (currentMessageId (process_chunk now c st))"
  using assms
  by (auto simp: process_chunk_def Let_def kinds_update_content dest: findIndex_Some split: option.splits)

lemma tokens_open_window:
  assumes "all_tokens ts" "\<not> no_current (currentMessageId st)"
  shows "kinds (messages (run ts st)) = kinds (messages st) \<and> \<not> no_current (currentMessageId (run ts st))"
  using assms
proof (induction ts arbitrary: st)
  case Nil
  then show ?case by simp
next
  case (Cons a ts)
  obtain n c where a: "a = (n, c)" by (cases a)
  have c: "chunk_type c = T_token" using Cons.prems(1) a by (simp add: all_tokens_def)
  have rest: "all_tokens ts" using Cons.prems(1) by (simp add: all_tokens_def)
  note step = token_next [OF c Cons.prems(2), of n]
  from Cons.IH [OF rest step(2)] have
    "kinds (messages (run ts (process_chunk n c st))) = kinds (messages (process_chunk n c st))"
    "\<not> no_current (currentMessageId (run ts (process_chunk n c st)))"
    by blast+
  then show ?case unfolding a run_Cons step(1) by blast
qed

lemma tokens_new_window:
  assumes "ts \<noteq> []" "all_tokens ts" "no_current (currentMessageId st)"
  shows "kinds (messages (run ts st)) = kinds (messages st) @ [M_ai]"
proof -
  from assms(1) obtain n c ts' where ts: "ts = (n, c) # ts'" by (cases ts) auto
  have c: "chunk_type c = T_token" using assms(2) ts by (simp add: all_tokens_def)
  have rest: "all_tokens ts'" using assms(2) ts by (simp add: all_tokens_def)
  note step = token_first [OF c assms(3), of n]
  from tokens_open_window [OF rest step(2)]
  have "kinds (messages (run ts' (process_chunk n c st))) = kinds (messages (process_chunk n c st))"
    by blast
  then show ?thesis unfolding ts run_Cons step(1) .
qed

lemma tool_result_step:
  assumes "chunk_type r = T_tool_result" "toolResult r \<noteq> None"
  shows "kinds (messages (process_chunk n r st)) = kinds (messages st) @ [M_tool]"
    and "no_current (currentMessageId (process_chunk n r st))"
  using assms by (auto simp: process_chunk_def kinds_def new_tool_message_def no_current_def)

lemma reset_shape_kinds:
  assumes "ts1 \<noteq> []" "ts2 \<noteq> []"
      and "all_tokens ts1"
      and "all_tokens ts2"
      and "chunk_type r = T_tool_result" "toolResult r \<noteq> None"
      and "no_current (currentMessageId st)"
  shows "kinds (messages (run (ts1 @ [(n, r)] @ ts2) st)) = kinds (messages st) @ [M_ai, M_tool, M_ai]"
proof -
  let ?s1 = "run ts1 st"
  let ?s2 = "process_chunk n r ?s1"
  have k1: "kinds (messages ?s1) = kinds (messages st) @ [M_ai]"
    by (rule tokens_new_window [OF assms(1) assms(3) assms(7)])
  note r = tool_result_step [OF assms(5,6), of n ?s1]
  have k3: "kinds (messages (run ts2 ?s2)) = kinds (messages ?s2) @ [M_ai]"
    by (rule tokens_new_window [OF assms(2) assms(4) r(2)])
  have "run (ts1 @ [(n, r)] @ ts2) st = run ts2 ?s2"
    by (simp only: run_append run_Cons run_Nil)
  then show ?thesis by (simp only: k3 r(1) k1 append_assoc append_Cons append_Nil)
qed

text \<open>
  C3. For every chunk sequence of the shape: one or more token chunks with
  \<open>messageId\<close> \<open>m1\<close>, a tool-result chunk that carries its \<open>toolResult\<close>, one or more
  token chunks with the same \<open>messageId\<close> \<open>m1\<close>, \<open>processChunksToMessages\<close> returns
  exactly two assistant messages (the kinds of its result are ai, tool, ai), and the hook,
  started on a cached list \<open>old\<close>, adds exactly two assistant messages to it.
\<close>

theorem tool_result_reset_two_ai_messages:
  assumes "ts1 \<noteq> []" and "ts2 \<noteq> []"
      and "tokens_with_id m1 ts1" and "tokens_with_id m1 ts2"
      and "chunk_type r = T_tool_result" and "toolResult r \<noteq> None"
  shows "ai_count (processChunksToMessages (ts1 @ [(n, r)] @ ts2)) = 2 \<and>
         ai_count (messages (processStreamChunks (ts1 @ [(n, r)] @ ts2) (stream_start old)))
           = ai_count old + 2"
proof -
  let ?cs = "ts1 @ [(n, r)] @ ts2"
  let ?init = "\<lparr>messages = [], currentMessageId = None, accumulatedContent = []\<rparr>"
  note t1 = tokens_with_id_all_tokens [OF assms(3)]
  note t2 = tokens_with_id_all_tokens [OF assms(4)]
  have i0: "no_current (currentMessageId ?init)"
    by (simp add: no_current_def)
  have i1: "no_current (currentMessageId (acc_of (stream_start old)))"
    by (simp add: no_current_def acc_of_def stream_start_def)
  have pure: "kinds (processChunksToMessages ?cs) = [M_ai, M_tool, M_ai]"
    unfolding processChunksToMessages_run
    using reset_shape_kinds [OF assms(1,2) t1 t2 assms(5,6) i0, of n]
    by (simp add: kinds_def)
  have notc: "no_tool_call ?cs"
    using all_tokens_no_tool_call [OF t1] all_tokens_no_tool_call [OF t2] assms(5)
    by (simp add: no_tool_call_def)
  have "messages (processStreamChunks ?cs (stream_start old))
        = messages (acc_of (processStreamChunks ?cs (stream_start old)))"
    by (simp add: acc_of_def)
  also have "\<dots> = messages (run ?cs (acc_of (stream_start old)))"
    by (simp only: hook_simulates_run [OF notc])
  finally have "kinds (messages (processStreamChunks ?cs (stream_start old)))
        = kinds (messages (run ?cs (acc_of (stream_start old))))"
    by (rule arg_cong)
  also have "\<dots> = kinds (messages (acc_of (stream_start old))) @ [M_ai, M_tool, M_ai]"
    by (rule reset_shape_kinds [OF assms(1,2) t1 t2 assms(5,6) i1])
  also have "\<dots> = kinds old @ [M_ai, M_tool, M_ai]"
    by (simp add: acc_of_def stream_start_def)
  finally have hook: "kinds (messages (processStreamChunks ?cs (stream_start old)))
        = kinds old @ [M_ai, M_tool, M_ai]" .
  show ?thesis
    unfolding ai_count_kinds pure hook by simp
qed

theorem tool_result_reset_two_ai_messages_witness:
  "[(1, token ''a'' ''m1''), (2, token ''b'' ''m1'')] \<noteq> [] \<and> [(4, token ''c'' ''m1'')] \<noteq> [] \<and>
   tokens_with_id (js ''m1'') [(1, token ''a'' ''m1''), (2, token ''b'' ''m1'')] \<and>
   tokens_with_id (js ''m1'') [(4, token ''c'' ''m1'')] \<and>
   chunk_type sample_tool_result = T_tool_result \<and> toolResult sample_tool_result \<noteq> None \<and>
   ai_count (processChunksToMessages
      ([(1, token ''a'' ''m1''), (2, token ''b'' ''m1'')] @ [(3, sample_tool_result)]
        @ [(4, token ''c'' ''m1'')])) = 2 \<and>
   ai_count (messages (processStreamChunks
      ([(1, token ''a'' ''m1''), (2, token ''b'' ''m1'')] @ [(3, sample_tool_result)]
        @ [(4, token ''c'' ''m1'')]) (stream_start []))) = ai_count [] + 2"
proof -
  have h1: "[(1::nat, token ''a'' ''m1''), (2, token ''b'' ''m1'')] \<noteq> []" by simp
  have h2: "[(4::nat, token ''c'' ''m1'')] \<noteq> []" by simp
  have h3: "tokens_with_id (js ''m1'') [(1, token ''a'' ''m1''), (2, token ''b'' ''m1'')]"
    by (simp add: tokens_with_id_def token_def)
  have h4: "tokens_with_id (js ''m1'') [(4, token ''c'' ''m1'')]"
    by (simp add: tokens_with_id_def token_def)
  have h5: "chunk_type sample_tool_result = T_tool_result"
    by (simp add: sample_tool_result_def)
  have h6: "toolResult sample_tool_result \<noteq> None"
    by (simp add: sample_tool_result_def)
  from tool_result_reset_two_ai_messages [OF h1 h2 h3 h4 h5 h6, of 3 "[]"] h3 h4 h5 h6
  show ?thesis by simp
qed

subsection \<open>Token fidelity\<close>

text \<open>
  Within one window the content of the assistant message is the concatenation of the
  token texts, as long as no earlier assistant message of the list carries the id of
  the message in progress.
\<close>

lemma window_token_step:
  assumes "messages st = old @ [new_ai_message mid acc]" "currentMessageId st = Some mid" "mid \<noteq> []"
      and "accumulatedContent st = acc" "findIndex (is_current_ai mid) old = None"
      and "chunk_type c = T_token"
  shows "process_chunk n c st =
           st\<lparr>messages := old @ [new_ai_message mid (acc @ str_or (content c) [])],
              accumulatedContent := acc @ str_or (content c) []\<rparr>"
  using assms findIndex_append_new [OF assms(5) is_current_ai_new, of acc]
  by (simp add: process_chunk_def Let_def no_current_def current_def with_content_new_ai)

lemma window_tokens:
  assumes "all_tokens ts" "messages st = old @ [new_ai_message mid acc]" "currentMessageId st = Some mid"
      and "mid \<noteq> []" "accumulatedContent st = acc" "findIndex (is_current_ai mid) old = None"
  shows "run ts st = st\<lparr>messages := old @ [new_ai_message mid (acc @ token_text ts)],
                         accumulatedContent := acc @ token_text ts\<rparr>"
  using assms
proof (induction ts arbitrary: st acc)
  case Nil
  then show ?case by (simp add: token_text_def)
next
  case (Cons a ts)
  obtain n c where a: "a = (n, c)" by (cases a)
  have c: "chunk_type c = T_token" using Cons.prems(1) a by (simp add: all_tokens_def)
  have rest: "all_tokens ts" using Cons.prems(1) by (simp add: all_tokens_def)
  let ?acc = "acc @ str_or (content c) []"
  let ?st = "st\<lparr>messages := old @ [new_ai_message mid ?acc], accumulatedContent := ?acc\<rparr>"
  have step: "process_chunk n c st = ?st"
    by (rule window_token_step [OF Cons.prems(2,3,4,5,6) c])
  have "run ts ?st = ?st\<lparr>messages := old @ [new_ai_message mid (?acc @ token_text ts)],
                           accumulatedContent := ?acc @ token_text ts\<rparr>"
    by (rule Cons.IH [OF rest]) (simp_all add: Cons.prems)
  then show ?case
    by (simp add: a step token_text_def)
qed

lemma single_window_token_fidelity:
  assumes "all_tokens ts" and that: "chunk_type c = T_token"
  shows "processChunksToMessages ((n, c) # ts) =
           [new_ai_message (str_or (messageId c) (js ''ai-'' @ dec n)) (token_text ((n, c) # ts))]"
proof -
  let ?init = "\<lparr>messages = [], currentMessageId = None, accumulatedContent = []\<rparr>"
  let ?mid = "str_or (messageId c) (js ''ai-'' @ dec n)"
  let ?acc = "str_or (content c) []"
  have first: "process_chunk n c ?init =
      \<lparr>messages = [] @ [new_ai_message ?mid ?acc], currentMessageId = Some ?mid, accumulatedContent = ?acc\<rparr>"
    using that by (simp add: process_chunk_def Let_def no_current_def)
  have "run ts (process_chunk n c ?init) =
     (process_chunk n c ?init)\<lparr>messages := [] @ [new_ai_message ?mid (?acc @ token_text ts)],
        accumulatedContent := ?acc @ token_text ts\<rparr>"
    by (rule window_tokens [OF assms(1)]) (simp_all add: first ai_id_nonempty)
  then show ?thesis
    by (simp add: processChunksToMessages_run token_text_def)
qed

text \<open>
  C1 fails on the code where a \<open>messageId\<close> is reused after a tool-result reset. The
  second window appends a new assistant message with the reused id, and every later
  token looks the message up by id with \<open>findIndex\<close>, which finds the first message
  with that id: the message of the first window. For the chunks a, b (id m1), a tool
  result, c, d (id m1), the first assistant message ends with content \<open>cd\<close> instead
  of \<open>ab\<close> and the second with \<open>c\<close> instead of \<open>cd\<close>, in the pure function and in the
  hook alike.
\<close>

theorem id_reuse_misroutes_tokens:
  "processChunksToMessages
     [(1, token ''a'' ''m1''), (2, token ''b'' ''m1''), (3, sample_tool_result),
      (4, token ''c'' ''m1''), (5, token ''d'' ''m1'')]
   = [new_ai_message (js ''m1'') (js ''cd''),
      new_tool_message 3 sample_tool_result sample_result,
      new_ai_message (js ''m1'') (js ''c'')] \<and>
   messages (processStreamChunks
     [(1, token ''a'' ''m1''), (2, token ''b'' ''m1''), (3, sample_tool_result),
      (4, token ''c'' ''m1''), (5, token ''d'' ''m1'')] (stream_start []))
   = [new_ai_message (js ''m1'') (js ''cd''),
      new_tool_message 3 sample_tool_result sample_result,
      new_ai_message (js ''m1'') (js ''c'')]"
  by code_simp

subsection \<open>Tool calls\<close>

lemma is_current_ai_with_tool_calls:
  "is_current_ai m (with_tool_calls tcs x) = is_current_ai m x"
  by (simp add: is_current_ai_def with_tool_calls_def)

lemma existing_with_tool_calls: "existingToolCalls (with_tool_calls tcs x) = tcs"
  by (simp add: existingToolCalls_def with_tool_calls_def)

lemma findIndex_update_tool_calls:
  "findIndex (is_current_ai m) (ms[i := with_tool_calls tcs (ms ! i)]) = findIndex (is_current_ai m) ms"
proof (rule findIndex_cong)
  show "length (ms[i := with_tool_calls tcs (ms ! i)]) = length ms" by simp
next
  fix j assume "j < length (ms[i := with_tool_calls tcs (ms ! i)])"
  then show "is_current_ai m (ms[i := with_tool_calls tcs (ms ! i)] ! j) = is_current_ai m (ms ! j)"
    by (cases "j = i") (simp_all add: is_current_ai_with_tool_calls)
qed

lemma tool_call_step:
  assumes "currentMessageId st = Some m" "m \<noteq> []"
      and "findIndex (is_current_ai m) (messages st) = Some idx"
      and "chunk_type c = T_tool_call" "toolCall c = Some tc"
  shows "currentMessageId (processStreamChunk n c st) = Some m"
    and "findIndex (is_current_ai m) (messages (processStreamChunk n c st)) = Some idx"
    and "existingToolCalls (messages (processStreamChunk n c st) ! idx)
           = add_tool_call (existingToolCalls (messages st ! idx)) tc"
proof -
  have i: "idx < length (messages st)"
    using findIndex_Some [OF assms(3)] by simp
  let ?es = "existingToolCalls (messages st ! idx)"
  have step: "processStreamChunk n c st =
      (if list_ex (\<lambda>e. tc_id e = tc_id tc) ?es then st
       else st\<lparr>messages := (messages st)[idx := with_tool_calls (?es @ [tc]) (messages st ! idx)]\<rparr>)"
    using assms by (simp add: processStreamChunk_def no_current_def current_def)
  show "currentMessageId (processStreamChunk n c st) = Some m"
    by (simp add: step assms(1))
  show "findIndex (is_current_ai m) (messages (processStreamChunk n c st)) = Some idx"
    by (simp add: step assms(3) findIndex_update_tool_calls)
  show "existingToolCalls (messages (processStreamChunk n c st) ! idx) = add_tool_call ?es tc"
    using i by (simp add: step add_tool_call_def existing_with_tool_calls)
qed

lemma tool_calls_run:
  assumes "delivers cs tcs" "currentMessageId st = Some m" "m \<noteq> []"
      and "findIndex (is_current_ai m) (messages st) = Some idx"
  shows "currentMessageId (processStreamChunks cs st) = Some m
       \<and> findIndex (is_current_ai m) (messages (processStreamChunks cs st)) = Some idx
       \<and> existingToolCalls (messages (processStreamChunks cs st) ! idx)
           = foldl add_tool_call (existingToolCalls (messages st ! idx)) tcs"
  using assms
proof (induction cs arbitrary: st tcs)
  case Nil
  then show ?case by (simp add: delivers_def processStreamChunks_def)
next
  case (Cons a cs)
  obtain n c where a: "a = (n, c)" by (cases a)
  from Cons.prems(1) a obtain tc tcs' where tcs: "tcs = tc # tcs'"
    and c: "chunk_type c = T_tool_call" "toolCall c = Some tc" and rest: "delivers cs tcs'"
    by (cases tcs) (auto simp: delivers_def)
  note step = tool_call_step [OF Cons.prems(2,3,4) c, of n]
  from Cons.IH [OF rest step(1) Cons.prems(3) step(2)]
  show ?case
    by (simp add: a tcs processStreamChunks_def step(3))
qed

lemma list_ex_tc_id: "list_ex (\<lambda>e. tc_id e = i) es = (i \<in> set (map tc_id es))"
  by (induction es) auto

lemma add_tool_call_cases:
  "add_tool_call es tc = (if tc_id tc \<in> set (map tc_id es) then es else es @ [tc])"
  by (simp only: add_tool_call_def list_ex_tc_id)

lemma add_tool_call_ids:
  "set (map tc_id (add_tool_call es tc)) = insert (tc_id tc) (set (map tc_id es))"
  unfolding add_tool_call_cases by (cases "tc_id tc \<in> set (map tc_id es)") auto

lemma add_tool_call_distinct:
  "distinct (map tc_id es) \<Longrightarrow> distinct (map tc_id (add_tool_call es tc))"
  unfolding add_tool_call_cases by (cases "tc_id tc \<in> set (map tc_id es)") auto

lemma remdups_snoc: "remdups (xs @ [x]) = remdups (removeAll x xs) @ [x]"
  by (induction xs) auto

lemma first_occurrences_Cons:
  "first_occurrences (x # xs) = x # first_occurrences (removeAll x xs)"
  by (simp add: first_occurrences_def remdups_snoc removeAll_filter_not_eq rev_filter)

lemma foldl_add_tool_call:
  "\<exists>new. foldl add_tool_call es tcs = es @ new \<and> set new \<subseteq> set tcs
     \<and> map tc_id new = first_occurrences (filter (\<lambda>i. i \<notin> set (map tc_id es)) (map tc_id tcs))"
proof (induction tcs arbitrary: es)
  case Nil
  then show ?case by (simp add: first_occurrences_def)
next
  case (Cons tc tcs)
  show ?case
  proof (cases "tc_id tc \<in> set (map tc_id es)")
    case True
    then have a: "add_tool_call es tc = es"
      by (simp only: add_tool_call_cases if_True)
    from Cons.IH [of es] obtain new where n:
      "foldl add_tool_call es tcs = es @ new" "set new \<subseteq> set tcs"
      "map tc_id new = first_occurrences (filter (\<lambda>i. i \<notin> set (map tc_id es)) (map tc_id tcs))"
      by blast
    have "foldl add_tool_call es (tc # tcs) = es @ new"
      using n(1) a by simp
    moreover have "set new \<subseteq> set (tc # tcs)"
      using n(2) by auto
    moreover have "map tc_id new
        = first_occurrences (filter (\<lambda>i. i \<notin> set (map tc_id es)) (map tc_id (tc # tcs)))"
      using True n(3) by simp
    ultimately show ?thesis by blast
  next
    case False
    then have a: "add_tool_call es tc = es @ [tc]"
      by (simp only: add_tool_call_cases if_False)
    from Cons.IH [of "es @ [tc]"] obtain new where n:
      "foldl add_tool_call (es @ [tc]) tcs = (es @ [tc]) @ new" "set new \<subseteq> set tcs"
      "map tc_id new = first_occurrences (filter (\<lambda>i. i \<notin> set (map tc_id (es @ [tc]))) (map tc_id tcs))"
      by blast
    have f: "filter (\<lambda>i. i \<notin> set (map tc_id (es @ [tc]))) ids
           = removeAll (tc_id tc) (filter (\<lambda>i. i \<notin> set (map tc_id es)) ids)" for ids
      by (induction ids) auto
    have "foldl add_tool_call es (tc # tcs) = es @ (tc # new)"
      using n(1) a by simp
    moreover have "set (tc # new) \<subseteq> set (tc # tcs)"
      using n(2) by auto
    moreover have "map tc_id (tc # new)
        = first_occurrences (filter (\<lambda>i. i \<notin> set (map tc_id es)) (map tc_id (tc # tcs)))"
    proof -
      have "map tc_id (tc # new)
          = tc_id tc # first_occurrences
              (removeAll (tc_id tc) (filter (\<lambda>i. i \<notin> set (map tc_id es)) (map tc_id tcs)))"
        by (simp only: list.map n(3) f)
      also have "\<dots> = first_occurrences
              (tc_id tc # filter (\<lambda>i. i \<notin> set (map tc_id es)) (map tc_id tcs))"
        by (simp only: first_occurrences_Cons)
      also have "tc_id tc # filter (\<lambda>i. i \<notin> set (map tc_id es)) (map tc_id tcs)
          = filter (\<lambda>i. i \<notin> set (map tc_id es)) (map tc_id (tc # tcs))"
        using False by simp
      finally show ?thesis .
    qed
    ultimately show ?thesis by blast
  qed
qed

lemma foldl_add_tool_call_ids:
  "set (map tc_id (foldl add_tool_call es tcs)) = set (map tc_id es) \<union> set (map tc_id tcs)"
proof (induction tcs arbitrary: es)
  case Nil
  then show ?case by simp
next
  case (Cons tc tcs)
  have "set (map tc_id (foldl add_tool_call (add_tool_call es tc) tcs))
      = set (map tc_id (add_tool_call es tc)) \<union> set (map tc_id tcs)"
    by (rule Cons.IH)
  then show ?case unfolding add_tool_call_ids by simp
qed

lemma foldl_add_tool_call_distinct:
  "distinct (map tc_id es) \<Longrightarrow> distinct (map tc_id (foldl add_tool_call es tcs))"
proof (induction tcs arbitrary: es)
  case Nil
  then show ?case by simp
next
  case (Cons tc tcs)
  from Cons.IH [OF add_tool_call_distinct [OF Cons.prems]] show ?case by simp
qed

lemma distinct_map_filter_one:
  "distinct (map f xs) \<Longrightarrow> x \<in> set xs \<Longrightarrow> length (filter (\<lambda>e. f e = f x) xs) = 1"
proof (induction xs)
  case Nil
  then show ?case by simp
next
  case (Cons a xs)
  show ?case
  proof (cases "f a = f x")
    case True
    have "f e \<noteq> f x" if "e \<in> set xs" for e
    proof
      assume "f e = f x"
      then have "f a \<in> set (map f xs)" using True that by (metis image_eqI set_map)
      then show False using Cons.prems(1) by simp
    qed
    then have "filter (\<lambda>e. f e = f x) xs = []"
      by (simp add: filter_empty_conv)
    with True show ?thesis by simp
  next
    case False
    with Cons show ?thesis by auto
  qed
qed

text \<open>
  C6. Let \<open>currentMessageId\<close> be \<open>m\<close> and let the assistant message it refers to sit
  at index \<open>idx\<close>, with no two of its tool calls sharing an id. After the hook has
  processed tool-call chunks delivering the tool calls \<open>tcs\<close>, in any number and with
  any repetition, the message's \<open>tool_calls\<close> is the former list followed by delivered
  tool calls whose ids are the delivered ids not already present, each once, in order of
  first arrival; so every delivered id has exactly one entry. The refs and the position
  of the message are unchanged.
\<close>

theorem idempotent_tool_call_accumulation:
  assumes "currentMessageId st = Some m" and "m \<noteq> []"
      and "findIndex (is_current_ai m) (messages st) = Some idx"
      and "delivers cs tcs"
      and "distinct (map tc_id (existingToolCalls (messages st ! idx)))"
  shows "\<exists>new.
           existingToolCalls (messages (processStreamChunks cs st) ! idx)
             = existingToolCalls (messages st ! idx) @ new
         \<and> set new \<subseteq> set tcs
         \<and> map tc_id new
             = first_occurrences
                 (filter (\<lambda>i. i \<notin> set (map tc_id (existingToolCalls (messages st ! idx))))
                    (map tc_id tcs))
         \<and> (\<forall>tc \<in> set tcs.
               length (filter (\<lambda>e. tc_id e = tc_id tc)
                         (existingToolCalls (messages (processStreamChunks cs st) ! idx))) = 1)
         \<and> findIndex (is_current_ai m) (messages (processStreamChunks cs st)) = Some idx
         \<and> currentMessageId (processStreamChunks cs st) = Some m"
proof -
  let ?es = "existingToolCalls (messages st ! idx)"
  let ?fin = "existingToolCalls (messages (processStreamChunks cs st) ! idx)"
  note r = tool_calls_run [OF assms(4,1,2,3)]
  have fin: "?fin = foldl add_tool_call ?es tcs"
    using r by blast
  from foldl_add_tool_call [of ?es tcs] obtain new where n:
    "foldl add_tool_call ?es tcs = ?es @ new" "set new \<subseteq> set tcs"
    "map tc_id new = first_occurrences (filter (\<lambda>i. i \<notin> set (map tc_id ?es)) (map tc_id tcs))"
    by blast
  have d: "distinct (map tc_id ?fin)"
    unfolding fin by (rule foldl_add_tool_call_distinct [OF assms(5)])
  have one: "length (filter (\<lambda>e. tc_id e = tc_id tc) ?fin) = 1" if "tc \<in> set tcs" for tc
  proof -
    have "tc_id tc \<in> set (map tc_id ?fin)"
      unfolding fin foldl_add_tool_call_ids using that by simp
    then obtain e where e: "e \<in> set ?fin" "tc_id e = tc_id tc"
      by auto
    from distinct_map_filter_one [OF d e(1)] e(2) show ?thesis by simp
  qed
  have "?fin = ?es @ new"
    using fin n(1) by simp
  with n(2,3) one r show ?thesis
    by blast
qed

theorem idempotent_tool_call_accumulation_witness:
  "currentMessageId open_window = Some (js ''m1'') \<and> js ''m1'' \<noteq> [] \<and>
   findIndex (is_current_ai (js ''m1'')) (messages open_window) = Some 0 \<and>
   delivers [(2, tool_call_of sample_call), (3, tool_call_of second_call), (4, tool_call_of sample_call)]
     [sample_call, second_call, sample_call] \<and>
   distinct (map tc_id (existingToolCalls (messages open_window ! 0))) \<and>
   existingToolCalls (messages (processStreamChunks
      [(2, tool_call_of sample_call), (3, tool_call_of second_call), (4, tool_call_of sample_call)]
      open_window) ! 0) = [sample_call, second_call] \<and>
   (\<exists>new.
      existingToolCalls (messages (processStreamChunks
        [(2, tool_call_of sample_call), (3, tool_call_of second_call), (4, tool_call_of sample_call)]
        open_window) ! 0) = existingToolCalls (messages open_window ! 0) @ new
    \<and> set new \<subseteq> set [sample_call, second_call, sample_call]
    \<and> map tc_id new
        = first_occurrences
            (filter (\<lambda>i. i \<notin> set (map tc_id (existingToolCalls (messages open_window ! 0))))
               (map tc_id [sample_call, second_call, sample_call]))
    \<and> (\<forall>tc \<in> set [sample_call, second_call, sample_call].
          length (filter (\<lambda>e. tc_id e = tc_id tc)
                    (existingToolCalls (messages (processStreamChunks
                       [(2, tool_call_of sample_call), (3, tool_call_of second_call),
                        (4, tool_call_of sample_call)] open_window) ! 0))) = 1)
    \<and> findIndex (is_current_ai (js ''m1''))
          (messages (processStreamChunks
             [(2, tool_call_of sample_call), (3, tool_call_of second_call),
              (4, tool_call_of sample_call)] open_window)) = Some 0
    \<and> currentMessageId (processStreamChunks
          [(2, tool_call_of sample_call), (3, tool_call_of second_call),
           (4, tool_call_of sample_call)] open_window) = Some (js ''m1''))"
proof -
  have h1: "currentMessageId open_window = Some (js ''m1'')"
    by code_simp
  have h2: "js ''m1'' \<noteq> []"
    by (simp add: js_def)
  have h3: "findIndex (is_current_ai (js ''m1'')) (messages open_window) = Some 0"
    by code_simp
  have h4: "delivers [(2, tool_call_of sample_call), (3, tool_call_of second_call),
                      (4, tool_call_of sample_call)] [sample_call, second_call, sample_call]"
    by (simp add: delivers_def tool_call_of_def)
  have h5: "distinct (map tc_id (existingToolCalls (messages open_window ! 0)))"
    by code_simp
  have v: "existingToolCalls (messages (processStreamChunks
      [(2, tool_call_of sample_call), (3, tool_call_of second_call), (4, tool_call_of sample_call)]
      open_window) ! 0) = [sample_call, second_call]"
    by code_simp
  from idempotent_tool_call_accumulation [OF h1 h2 h3 h4 h5] h1 h2 h3 h4 h5 v
  show ?thesis by blast
qed

text \<open>
  C10 fails on the code where a tool call is delivered twice: the hook checks
  \<open>existingToolCalls.some((tc) => tc.id === chunk.toolCall.id)\<close> and keeps one entry,
  \<open>processChunksToMessages\<close> has no such check and appends the call again.
\<close>

theorem duplicate_tool_call_divergence:
  "messages (processStreamChunks
     [(1, token ''a'' ''m1''), (2, sample_tool_call_chunk), (3, sample_tool_call_chunk)] (stream_start []))
   = [with_tool_calls [sample_call] (new_ai_message (js ''m1'') (js ''a''))] \<and>
   processChunksToMessages
     [(1, token ''a'' ''m1''), (2, sample_tool_call_chunk), (3, sample_tool_call_chunk)]
   = [with_tool_calls [sample_call, sample_call] (new_ai_message (js ''m1'') (js ''a''))]"
  by code_simp

section \<open>TokenStreamEncoder\<close>

lemma queue_enqueue: "queue (enqueue t c) = queue c @ [t]" "closed (enqueue t c) = closed c"
  by (simp_all add: enqueue_def)

lemma send_all:
  "foldl (\<lambda>c chunk. send chunk c) c0 chunks =
     c0\<lparr>queue := queue c0 @ map (\<lambda>chunk. js ''data: '' @ stringify_text chunk @ [0x0A, 0x0A]) chunks\<rparr>"
  by (induction chunks arbitrary: c0) (simp_all add: send_def enqueue_def)

text \<open>
  C5, as the code has it. The stream carries the comment frame, one data frame per
  chunk of the service, and then: when the iterable ends, the data frame of the done
  chunk, the line \<open>event: done\<close> and the data line \<open>{}\<close>; when it raises \<open>err\<close>, the
  data frame of an error chunk, the line \<open>event: error\<close> and a data line with
  \<open>{message, threadId}\<close>, where the error text and the message are \<open>err.message\<close> when
  that is truthy and the literal \<open>Stream error\<close> when it is absent or empty. In both
  cases nothing follows and the stream is closed.
\<close>

theorem encoder_terminal_framing:
  \<open>GET_stream threadId chunks outcome =
     \<lparr>queue = [js '': connected'' @ [0x0A, 0x0A]]
              @ map (\<lambda>chunk. js ''data: '' @ stringify_text chunk @ [0x0A, 0x0A]) chunks
              @ (case outcome of
                   None \<Rightarrow>
                     [js ''data: {"type":"done"}'' @ [0x0A, 0x0A],
                      js ''event: done'' @ [0x0A], js ''data: {}'' @ [0x0A, 0x0A]]
                 | Some err \<Rightarrow>
                     [js ''data: '' @ stringify_text
                         (JObj ''Object'' [(''type'', JStr (js ''error'')),
                            (''error'', if truthy (field ''message'' err) then field ''message'' err
                                        else JStr (js ''Stream error''))]) @ [0x0A, 0x0A],
                      js ''event: error'' @ [0x0A],
                      js ''data: '' @ stringify_text
                         (JObj ''Object''
                            [(''message'', if truthy (field ''message'' err) then field ''message'' err
                                           else JStr (js ''Stream error'')),
                             (''threadId'', JStr threadId)]) @ [0x0A, 0x0A]]),
      closed = True\<rparr>\<close>
proof -
  have d: \<open>stringify_text done_chunk = js ''{"type":"done"}''\<close>
    by code_simp
  show ?thesis
  proof (cases outcome)
    case None
    then show ?thesis
      unfolding GET_stream_def Let_def send_all
      by (simp add: send_def enqueue_def d) (simp add: js_def)
  next
    case (Some err)
    then show ?thesis
      unfolding GET_stream_def Let_def send_all
      by (simp add: send_def enqueue_def error_chunk_def error_event_def
            failure_message_def js_or_def)
  qed
qed

theorem encoder_terminal_framing_witness:
  \<open>GET_stream (js ''t1'') [token_chunk (JStr (js ''Hi'')) (JStr (js ''m1''))] None =
     \<lparr>queue = [js '': connected'' @ [0x0A, 0x0A],
               js ''data: {"type":"token","content":"Hi","messageId":"m1"}'' @ [0x0A, 0x0A],
               js ''data: {"type":"done"}'' @ [0x0A, 0x0A],
               js ''event: done'' @ [0x0A],
               js ''data: {}'' @ [0x0A, 0x0A]],
      closed = True\<rparr>\<close>
proof -
  have s: \<open>stringify_text (token_chunk (JStr (js ''Hi'')) (JStr (js ''m1'')))
             = js ''{"type":"token","content":"Hi","messageId":"m1"}''\<close>
    by code_simp
  from encoder_terminal_framing [of "js ''t1''" "[token_chunk (JStr (js ''Hi'')) (JStr (js ''m1''))]" None]
  show ?thesis by (simp add: s) (simp add: js_def)
qed

text \<open>
  C5 as stated fails for the failure's message: for a failure whose message is the empty
  string the error frame and the error event carry \<open>Stream error\<close>, not that message.
\<close>

theorem empty_failure_message_counterexample:
  \<open>field ''message'' empty_message_error = JStr [] \<and>
   GET_stream (js ''t1'') [] (Some empty_message_error) =
     \<lparr>queue = [js '': connected'' @ [0x0A, 0x0A],
               js ''data: {"type":"error","error":"Stream error"}'' @ [0x0A, 0x0A],
               js ''event: error'' @ [0x0A],
               js ''data: {"message":"Stream error","threadId":"t1"}'' @ [0x0A, 0x0A]],
      closed = True\<rparr>\<close>
  by code_simp

section \<open>SSEFrameParser\<close>

subsection \<open>Data lines\<close>

lemma data_line_facts:
  "js ''data: '' @ rest \<noteq> []"
  "\<not> startsWith (js ''data: '' @ rest) (js '':'')"
  "startsWith (js ''data: '' @ rest) (js ''data: '')"
  "drop 6 (js ''data: '' @ rest) = rest"
  "\<not> startsWith (js ''data: '' @ rest) (js ''event: done'')"
  "\<not> startsWith (js ''data: '' @ rest) (js ''event: error'')"
  by (simp_all add: startsWith_def js_def)

lemma sse_events_data_line: "sse_events (js ''data: '' @ rest) st = st"
  unfolding sse_events_def Let_def
  by (simp only: data_line_facts simp_thms if_True if_False)

lemma handle_data_line:
  "handle_line parse now st (js ''data: '' @ rest) =
     (if rest = [] \<or> rest = js ''{}'' then st
      else case parse rest of None \<Rightarrow> st | Some chunk \<Rightarrow> processStreamChunk now chunk st)"
  unfolding handle_line_def Let_def
  by (simp only: data_line_facts sse_events_data_line simp_thms if_True if_False)

lemma data_payload_data_line:
  "data_payload (js ''data: '' @ rest) = (if rest = [] \<or> rest = js ''{}'' then None else Some rest)"
  unfolding data_payload_def Let_def
  by (simp only: data_line_facts simp_thms if_True if_False)

text \<open>
  C7. A line \<open>data: \<close> followed by \<open>rest\<close>, where \<open>JSON.parse\<close> throws on \<open>rest\<close> or
  \<open>rest\<close> is empty or is \<open>{}\<close>, leaves the whole state of the hook as it was: the
  refs, the message list and the flag. The handler is a total function, so nothing is
  thrown, and the lines before and after it are handled as if the line were not there.
\<close>

theorem malformed_frame_resilience:
  assumes "parse rest = None \<or> rest = [] \<or> rest = js ''{}''"
  shows "handle_line parse now st (js ''data: '' @ rest) = st \<and>
         foldl (handle_line parse now) st (before @ [js ''data: '' @ rest] @ after)
           = foldl (handle_line parse now) st (before @ after)"
proof -
  have one: "handle_line parse now s (js ''data: '' @ rest) = s" for s
    using assms by (auto simp: handle_data_line)
  show ?thesis
    by (simp add: one)
qed

theorem malformed_frame_resilience_witness:
  "((\<lambda>s. None) (js ''{bad'') = (None :: StreamChunk option) \<or> js ''{bad'' = [] \<or> js ''{bad'' = js ''{}'') \<and>
   handle_line (\<lambda>s. None) 0 (stream_start []) (js ''data: '' @ js ''{bad'') = stream_start [] \<and>
   foldl (handle_line (\<lambda>s. None) 0) (stream_start [])
      ([js '': connected''] @ [js ''data: '' @ js ''{bad''] @ [js ''event: done''])
     = foldl (handle_line (\<lambda>s. None) 0) (stream_start []) ([js '': connected''] @ [js ''event: done''])"
proof -
  have h: "(\<lambda>s. None) (js ''{bad'') = (None :: StreamChunk option) \<or> js ''{bad'' = [] \<or> js ''{bad'' = js ''{}''"
    by simp
  from malformed_frame_resilience [of "\<lambda>s. None" "js ''{bad''", OF h, of 0 "stream_start []"
         "[js '': connected'']" "[js ''event: done'']"] h
  show ?thesis by blast
qed

subsection \<open>Reads at arbitrary boundaries\<close>

lemma decode_stream_append:
  "decode_stream d (a @ b) =
     (let (d1, t1) = decode_stream d a; (d2, t2) = decode_stream d1 b in (d2, t1 @ t2))"
  by (induction a arbitrary: d) (simp_all add: Let_def split: prod.splits)

lemma split_nl_nonempty: "split_nl s \<noteq> []"
  by (induction s) (auto split: list.splits)

lemma split_nl_no_newline: "0x0A \<notin> set s \<Longrightarrow> split_nl s = [s]"
  by (induction s) auto

lemma split_nl_segments: "l \<in> set (split_nl s) \<Longrightarrow> 0x0A \<notin> set l"
proof (induction s arbitrary: l)
  case Nil
  then show ?case by simp
next
  case (Cons c s)
  obtain x xs where sp: "split_nl s = x # xs"
    using split_nl_nonempty [of s] by (cases "split_nl s") auto
  show ?case
  proof (cases "c = 0x0A")
    case True
    with Cons show ?thesis by auto
  next
    case False
    with Cons.prems sp have "l = c # x \<or> l \<in> set xs" by auto
    then show ?thesis
      using Cons.IH [of x] Cons.IH [of l] sp False by auto
  qed
qed

lemma split_nl_append:
  "split_nl (a @ b) = butlast (split_nl a) @ [last (split_nl a) @ hd (split_nl b)] @ tl (split_nl b)"
proof (induction a)
  case Nil
  then show ?case using split_nl_nonempty [of b] by (cases "split_nl b") auto
next
  case (Cons c a)
  obtain x xs where sp: "split_nl a = x # xs"
    using split_nl_nonempty [of a] by (cases "split_nl a") auto
  obtain y ys where spab: "split_nl (a @ b) = y # ys"
    using split_nl_nonempty [of "a @ b"] by (cases "split_nl (a @ b)") auto
  show ?case
  proof (cases "c = 0x0A")
    case True
    then show ?thesis using Cons.IH sp by simp
  next
    case False
    show ?thesis
    proof (cases xs)
      case Nil
      with Cons.IH sp spab False show ?thesis by simp
    next
      case (Cons x' xs')
      with Cons.IH sp spab False show ?thesis by simp
    qed
  qed
qed

lemma last_split_nl_no_newline: "0x0A \<notin> set (last (split_nl s))"
  using split_nl_segments [of "last (split_nl s)" s] split_nl_nonempty [of s] by simp

lemma split_nl_carry:
  "split_nl (last (split_nl a) @ b) = (last (split_nl a) @ hd (split_nl b)) # tl (split_nl b)"
  using split_nl_append [of "last (split_nl a)" b]
  by (simp add: split_nl_no_newline [OF last_split_nl_no_newline])

lemma split_nl_append_butlast:
  "butlast (split_nl (a @ b)) = butlast (split_nl a) @ butlast (split_nl (last (split_nl a) @ b))"
  by (simp add: split_nl_append [of a b] split_nl_carry butlast_append)

lemma split_nl_append_last:
  "last (split_nl (a @ b)) = last (split_nl (last (split_nl a) @ b))"
  by (simp add: split_nl_append [of a b] split_nl_carry)

lemma read_lines_append:
  "read_lines db (a @ b) =
     (let (db1, lines1) = read_lines db a; (db2, lines2) = read_lines db1 b
      in (db2, lines1 @ lines2))"
proof -
  obtain d1 t1 where a: "decode_stream (fst db) a = (d1, t1)" by (cases "decode_stream (fst db) a")
  obtain d2 t2 where b: "decode_stream d1 b = (d2, t2)" by (cases "decode_stream d1 b")
  have ab: "decode_stream (fst db) (a @ b) = (d2, t1 @ t2)"
    by (simp add: decode_stream_append a b)
  have l: "last (split_nl (snd db @ t1 @ t2)) = last (split_nl (last (split_nl (snd db @ t1)) @ t2))"
    using split_nl_append_last [of "snd db @ t1" t2] by simp
  have bl: "butlast (split_nl (snd db @ t1 @ t2))
      = butlast (split_nl (snd db @ t1)) @ butlast (split_nl (last (split_nl (snd db @ t1)) @ t2))"
    using split_nl_append_butlast [of "snd db @ t1" t2] by simp
  show ?thesis
    by (simp add: read_lines_def Let_def a b ab l bl)
qed

lemma feed_single: "feed db [v] = read_lines db v"
  by (simp add: split: prod.splits)

lemma feed_concat: "pieces \<noteq> [] \<Longrightarrow> feed db pieces = read_lines db (concat pieces)"
proof (induction pieces arbitrary: db)
  case Nil
  then show ?case by simp
next
  case (Cons v vs)
  show ?case
  proof (cases "vs = []")
    case True
    then show ?thesis by (simp add: feed_single)
  next
    case False
    obtain db1 l1 where r: "read_lines db v = (db1, l1)" by (cases "read_lines db v")
    have "feed db1 vs = read_lines db1 (concat vs)"
      by (rule Cons.IH [OF False])
    then show ?thesis
      by (simp add: r read_lines_append)
  qed
qed

lemma split_nl_line: "0x0A \<notin> set l \<Longrightarrow> split_nl (l @ 0x0A # rest) = l # split_nl rest"
  by (induction l) auto

lemma data_prefix_no_newline: "0x0A \<notin> set (js ''data: '')"
  by (simp add: js_def)

lemma frame_lines:
  assumes "decode_stream utf8_init frame = (d, js ''data: '' @ json @ [0x0A, 0x0A])"
      and "0x0A \<notin> set json"
  shows "read_lines (utf8_init, []) frame = ((d, []), [js ''data: '' @ json, []])"
proof -
  have n: "0x0A \<notin> set (js ''data: '' @ json)"
    using assms(2) data_prefix_no_newline by simp
  have "split_nl ((js ''data: '' @ json) @ 0x0A # [0x0A]) = (js ''data: '' @ json) # split_nl [0x0A]"
    by (rule split_nl_line [OF n])
  then have "split_nl (js ''data: '' @ json @ [0x0A, 0x0A]) = [js ''data: '' @ json, [], []]"
    by simp
  then show ?thesis
    by (simp add: read_lines_def Let_def assms(1))
qed

lemma read_loop_feed:
  "foldl (read_step parse now) r pieces =
     (let (db, lines) = feed (decoder r, buffer r) pieces
      in \<lparr>decoder = fst db, buffer = snd db, hook = foldl (handle_line parse now) (hook r) lines\<rparr>)"
proof (induction pieces arbitrary: r)
  case Nil
  then show ?case by simp
next
  case (Cons v vs)
  obtain db1 l1 where r1: "read_lines (decoder r, buffer r) v = (db1, l1)"
    by (cases "read_lines (decoder r, buffer r) v")
  obtain db2 l2 where r2: "feed db1 vs = (db2, l2)"
    by (cases "feed db1 vs")
  have s: "read_step parse now r v =
      \<lparr>decoder = fst db1, buffer = snd db1, hook = foldl (handle_line parse now) (hook r) l1\<rparr>"
    by (simp add: read_step_def r1)
  show ?case
    by (simp add: Cons.IH s r1 r2)
qed

text \<open>
  C4. Let \<open>frame\<close> be the bytes of a frame that decodes, from the decoder's initial
  state, to \<open>data: \<close>, a text \<open>json\<close> without a newline, and two newlines; let \<open>pieces\<close>
  be any one or more contiguous pieces of it, cut anywhere, also inside a multi-byte
  character or an escape sequence. Then, from any decoder state and buffer, the reads of
  the pieces hand the loop the same complete lines and leave the same decoder state and
  buffer as one read of the whole frame. From the state between frames the lines are the
  data line and the empty line, the buffer is empty again, \<open>json\<close> is the one text
  handed to \<open>JSON.parse\<close>, and the loop leaves the hook as one call of
  \<open>processStreamChunk\<close> on the decoded chunk does.
\<close>

theorem sse_frame_split_invariance:
  assumes "pieces \<noteq> []" and "concat pieces = frame"
      and "decode_stream utf8_init frame = (d, js ''data: '' @ json @ [0x0A, 0x0A])"
      and "0x0A \<notin> set json"
  shows "feed db pieces = feed db [frame] \<and>
         feed (utf8_init, []) pieces = ((d, []), [js ''data: '' @ json, []]) \<and>
         map data_payload [js ''data: '' @ json, []]
           = [if json = [] \<or> json = js ''{}'' then None else Some json, None] \<and>
         foldl (read_step parse now) \<lparr>decoder = utf8_init, buffer = [], hook = st\<rparr> pieces
           = \<lparr>decoder = d, buffer = [],
              hook = (if json = [] \<or> json = js ''{}'' then st
                      else case parse json of
                             None \<Rightarrow> st
                           | Some chunk \<Rightarrow> processStreamChunk now chunk st)\<rparr>"
proof -
  have inv: "feed db pieces = feed db [frame]"
    by (simp only: feed_concat [OF assms(1)] assms(2) feed_single)
  have whole: "feed (utf8_init, []) pieces = ((d, []), [js ''data: '' @ json, []])"
    by (simp only: feed_concat [OF assms(1)] assms(2) frame_lines [OF assms(3,4)])
  have pay: "map data_payload [js ''data: '' @ json, []]
           = [if json = [] \<or> json = js ''{}'' then None else Some json, None]"
    by (simp add: data_payload_data_line) (simp add: data_payload_def)
  have e: "handle_line parse now s [] = s" for s
    by (simp add: handle_line_def)
  have loop: "foldl (read_step parse now) \<lparr>decoder = utf8_init, buffer = [], hook = st\<rparr> pieces
           = \<lparr>decoder = d, buffer = [],
              hook = (if json = [] \<or> json = js ''{}'' then st
                      else case parse json of
                             None \<Rightarrow> st
                           | Some chunk \<Rightarrow> processStreamChunk now chunk st)\<rparr>"
    by (simp add: read_loop_feed whole handle_data_line e)
  from inv whole pay loop show ?thesis by blast
qed

theorem sse_frame_split_invariance_witness:
  "sample_pieces \<noteq> [] \<and>
   decode_stream utf8_init (concat sample_pieces) = (utf8_init, js ''data: '' @ sample_json @ [0x0A, 0x0A]) \<and>
   0x0A \<notin> set sample_json \<and>
   feed (utf8_init, []) sample_pieces = feed (utf8_init, []) [concat sample_pieces] \<and>
   feed (utf8_init, []) sample_pieces = ((utf8_init, []), [js ''data: '' @ sample_json, []]) \<and>
   foldl (read_step sample_parse 7) \<lparr>decoder = utf8_init, buffer = [], hook = stream_start []\<rparr>
       sample_pieces
     = \<lparr>decoder = utf8_init, buffer = [],
        hook = processStreamChunk 7 sample_token (stream_start [])\<rparr>"
proof -
  have h1: "sample_pieces \<noteq> []"
    by (simp add: sample_pieces_def)
  have h3: "decode_stream utf8_init (concat sample_pieces)
              = (utf8_init, js ''data: '' @ sample_json @ [0x0A, 0x0A])"
    by (simp add: sample_pieces_def sample_json_def js_def utf8_handler_def utf8_lead_def
          utf8_init_def utf16_def Let_def)
  have h4: "0x0A \<notin> set sample_json"
    by (simp add: sample_json_def js_def)
  have ne: "\<not> (sample_json = [] \<or> sample_json = js ''{}'')"
    by (simp add: sample_json_def js_def)
  have p: "sample_parse sample_json = Some sample_token"
    by (simp add: sample_parse_def)
  from sse_frame_split_invariance [OF h1 refl h3 h4, of "(utf8_init, [])" sample_parse 7 "stream_start []"]
    h1 h3 h4 ne p
  show ?thesis by auto
qed

end
